theory Spec2Isabelle
  imports Complex_Main
begin

section \<open>Numbers\<close>

text \<open>
  Pointer coordinates, the clock and the rotation angles of \<^verbatim>\<open>social-icons.js\<close> are
  modelled by reals: the module only adds and multiplies them, and nothing proved about
  them below depends on how a result is rounded. The load callback is different: its
  division \<^verbatim>\<open>1.8 / maxDim\<close> and the bounding boxes computed before and after it depend on
  the arithmetic of JavaScript numbers, IEEE 754 binary64. There a number is a \<open>jsnum\<close>:
  a finite double, \<^verbatim>\<open>Infinity\<close>, \<^verbatim>\<open>-Infinity\<close> or \<^verbatim>\<open>NaN\<close>. The sign of a zero is not
  tracked (the only division of the module is by a difference \<open>max - min\<close>, which is never
  \<^verbatim>\<open>-0\<close>).
\<close>

datatype jsnum = Fin real | PosInf | NegInf | NaN

text \<open>Rounding a real to the nearest integer, a tie to the even one.\<close>

definition round_even :: "real \<Rightarrow> int" where
  "round_even r =
     (let f = \<lfloor>r\<rfloor>
      in if r - of_int f < 1 / 2 then f
         else if 1 / 2 < r - of_int f then f + 1
         else if even f then f else f + 1)"

text \<open>
  The double nearest to a real (round to nearest, ties to even): doubles near \<open>x\<close> are the
  multiples of \<open>2 ^ (e - 52)\<close>, where \<open>e\<close> is the binary exponent of \<open>x\<close>, not below -1022
  (below that the spacing stays \<open>2 ^ -1074\<close>); a result of magnitude \<open>2 ^ 1024\<close> is an
  infinity.
\<close>

definition fl :: "real \<Rightarrow> jsnum" where
  "fl x =
     (if x = 0 then Fin 0
      else
        (let e = max \<lfloor>log 2 \<bar>x\<bar>\<rfloor> (- 1022);
             q = 2 powr (of_int e - 52);
             y = of_int (round_even (x / q)) * q
         in if 2 powr 1024 \<le> y then PosInf
            else if y \<le> - (2 powr 1024) then NegInf
            else Fin y))"

definition signed_inf :: "bool \<Rightarrow> jsnum" where
  "signed_inf positive = (if positive then PosInf else NegInf)"

fun js_neg :: "jsnum \<Rightarrow> jsnum" where
  "js_neg (Fin a) = Fin (- a)"
| "js_neg PosInf = NegInf"
| "js_neg NegInf = PosInf"
| "js_neg NaN = NaN"

fun js_add :: "jsnum \<Rightarrow> jsnum \<Rightarrow> jsnum" where
  "js_add (Fin a) (Fin b) = fl (a + b)"
| "js_add NaN b = NaN"
| "js_add a NaN = NaN"
| "js_add PosInf NegInf = NaN"
| "js_add NegInf PosInf = NaN"
| "js_add PosInf b = PosInf"
| "js_add a PosInf = PosInf"
| "js_add NegInf b = NegInf"
| "js_add a NegInf = NegInf"

definition js_sub :: "jsnum \<Rightarrow> jsnum \<Rightarrow> jsnum" where
  "js_sub a b = js_add a (js_neg b)"

fun js_mul :: "jsnum \<Rightarrow> jsnum \<Rightarrow> jsnum" where
  "js_mul (Fin a) (Fin b) = fl (a * b)"
| "js_mul NaN b = NaN"
| "js_mul a NaN = NaN"
| "js_mul (Fin a) PosInf = (if a = 0 then NaN else signed_inf (0 < a))"
| "js_mul (Fin a) NegInf = (if a = 0 then NaN else signed_inf (a < 0))"
| "js_mul PosInf (Fin b) = (if b = 0 then NaN else signed_inf (0 < b))"
| "js_mul NegInf (Fin b) = (if b = 0 then NaN else signed_inf (b < 0))"
| "js_mul PosInf PosInf = PosInf"
| "js_mul PosInf NegInf = NegInf"
| "js_mul NegInf PosInf = NegInf"
| "js_mul NegInf NegInf = PosInf"

fun js_div :: "jsnum \<Rightarrow> jsnum \<Rightarrow> jsnum" where
  "js_div (Fin a) (Fin b) =
     (if b = 0 then (if a = 0 then NaN else signed_inf (0 < a)) else fl (a / b))"
| "js_div NaN b = NaN"
| "js_div a NaN = NaN"
| "js_div (Fin a) PosInf = Fin 0"
| "js_div (Fin a) NegInf = Fin 0"
| "js_div PosInf (Fin b) = signed_inf (0 \<le> b)"
| "js_div NegInf (Fin b) = signed_inf (b < 0)"
| "js_div a b = NaN"

text \<open>\<^verbatim>\<open>Math.max\<close> and \<^verbatim>\<open>Math.min\<close>: \<^verbatim>\<open>NaN\<close> if an argument is \<^verbatim>\<open>NaN\<close>.\<close>

fun js_max :: "jsnum \<Rightarrow> jsnum \<Rightarrow> jsnum" where
  "js_max (Fin a) (Fin b) = Fin (max a b)"
| "js_max NaN b = NaN"
| "js_max a NaN = NaN"
| "js_max PosInf b = PosInf"
| "js_max a PosInf = PosInf"
| "js_max NegInf b = b"
| "js_max a NegInf = a"

fun js_min :: "jsnum \<Rightarrow> jsnum \<Rightarrow> jsnum" where
  "js_min (Fin a) (Fin b) = Fin (min a b)"
| "js_min NaN b = NaN"
| "js_min a NaN = NaN"
| "js_min NegInf b = NegInf"
| "js_min a NegInf = NegInf"
| "js_min PosInf b = b"
| "js_min a PosInf = a"

section \<open>The part of Three.js the module uses\<close>

type_synonym 'a vec3 = "'a \<times> 'a \<times> 'a"

definition vx :: "'a vec3 \<Rightarrow> 'a" where "vx v = fst v"
definition vy :: "'a vec3 \<Rightarrow> 'a" where "vy v = fst (snd v)"
definition vz :: "'a vec3 \<Rightarrow> 'a" where "vz v = snd (snd v)"

text \<open>
  \<^verbatim>\<open>obj.material\<close> is undefined, one material or an array of materials; geometries and
  materials are named by numbers.
\<close>

datatype material = NoMaterial | Material nat | Materials "nat list"

datatype object3d = Object3D (geometry: "nat option") (material: material) (children: "object3d list")

text \<open>
  What \<^verbatim>\<open>GLTFLoader\<close> hands to the load callback as \<^verbatim>\<open>gltf.scene\<close>: a fresh group
  (its own transform is the identity) above the nodes of the file. \<open>gltf_vertices\<close> are
  the corner points that \<^verbatim>\<open>Box3.setFromObject\<close> transforms and collects (the corners of
  the meshes' bounding boxes, for meshes that carry no transform of their own); a
  coordinate stands for the double nearest to it. \<open>gltf_nodes\<close> are the group's children.
\<close>

record gltf =
  gltf_vertices :: "real vec3 list"
  gltf_nodes :: "object3d list"

text \<open>The model while the callback works on it: \<^verbatim>\<open>model.scale\<close> (all three components are
  equal after \<^verbatim>\<open>setScalar\<close>) and \<^verbatim>\<open>model.position\<close>.\<close>

record model3d =
  vertices :: "real vec3 list"
  nodes :: "object3d list"
  scale :: jsnum
  position :: "jsnum vec3"

text \<open>A \<^verbatim>\<open>Box3\<close>: \<open>None\<close> is the empty box, otherwise the corners \<open>(min, max)\<close>.\<close>

type_synonym box3 = "(jsnum vec3 \<times> jsnum vec3) option"

text \<open>
  A point in world space, as \<^verbatim>\<open>Vector3.applyMatrix4\<close> computes it from the model's matrix.
  For a model that is not rotated the matrix has the scale on its diagonal, the products
  \<open>0 * scale\<close> off the diagonal, the position in its last column and \<open>0, 0, 0, 1\<close> in its
  last row; \<open>w\<close> is the reciprocal of the homogeneous coordinate.
\<close>

definition to_world :: "model3d \<Rightarrow> real vec3 \<Rightarrow> jsnum vec3" where
  "to_world m v =
     (let s = scale m;
          off = js_mul (Fin 0) s;
          x = fl (vx v); y = fl (vy v); z = fl (vz v);
          w = js_div (Fin 1)
                (js_add (js_add (js_add (js_mul (Fin 0) x) (js_mul (Fin 0) y)) (js_mul (Fin 0) z)) (Fin 1))
      in (js_mul (js_add (js_add (js_add (js_mul s x) (js_mul off y)) (js_mul off z)) (vx (position m))) w,
          js_mul (js_add (js_add (js_add (js_mul off x) (js_mul s y)) (js_mul off z)) (vy (position m))) w,
          js_mul (js_add (js_add (js_add (js_mul off x) (js_mul off y)) (js_mul s z)) (vz (position m))) w))"

fun expandByPoints :: "jsnum vec3 list \<Rightarrow> box3" where
  "expandByPoints [] = None"
| "expandByPoints (p # ps) =
     Some ((foldl js_min (vx p) (map vx ps), foldl js_min (vy p) (map vy ps), foldl js_min (vz p) (map vz ps)),
           (foldl js_max (vx p) (map vx ps), foldl js_max (vy p) (map vy ps), foldl js_max (vz p) (map vz ps)))"

definition setFromObject :: "model3d \<Rightarrow> box3" where
  "setFromObject m = expandByPoints (map (to_world m) (vertices m))"

text \<open>\<^verbatim>\<open>Box3.getSize\<close> and \<^verbatim>\<open>Box3.getCenter\<close> give the zero vector for the empty box.\<close>

fun getSize :: "box3 \<Rightarrow> jsnum vec3" where
  "getSize None = (Fin 0, Fin 0, Fin 0)"
| "getSize (Some (lo, hi)) = (js_sub (vx hi) (vx lo), js_sub (vy hi) (vy lo), js_sub (vz hi) (vz lo))"

fun getCenter :: "box3 \<Rightarrow> jsnum vec3" where
  "getCenter None = (Fin 0, Fin 0, Fin 0)"
| "getCenter (Some (lo, hi)) =
     (js_mul (js_add (vx lo) (vx hi)) (Fin 0.5),
      js_mul (js_add (vy lo) (vy hi)) (Fin 0.5),
      js_mul (js_add (vz lo) (vz hi)) (Fin 0.5))"

text \<open>\<^verbatim>\<open>Math.max(size.x, size.y, size.z)\<close>.\<close>

definition maxDim :: "jsnum vec3 \<Rightarrow> jsnum" where
  "maxDim sz = js_max (js_max (vx sz) (vy sz)) (vz sz)"

text \<open>The pivot \<^verbatim>\<open>Group\<close>: its yaw \<^verbatim>\<open>rotation.y\<close> and the model added to it.\<close>

record pivot_group =
  rotation_y :: real
  child :: model3d

text \<open>
  A child of an icon's \<^verbatim>\<open>THREE.Scene\<close>: an object of its own (the two lights), or the
  reference to the group that \<^verbatim>\<open>icon.pivot\<close> also points to. The group itself is kept in
  one place, the icon's \<open>pivot\<close> field, so that a write through \<^verbatim>\<open>icon.pivot\<close> is seen
  by the scene.
\<close>

datatype scene_child = Child object3d | PivotRef

section \<open>The browser as the module sees it\<close>

datatype target = Window | Container nat

datatype hkind =
  OnMouseDown | OnMouseMove | OnMouseUp | OnTouchStart | OnTouchMove | OnTouchEnd | OnClick

text \<open>\<open>Handler k h\<close> is the closure of kind \<open>h\<close> created for the icon at position \<open>k\<close>.\<close>

datatype handler = Handler nat hkind

text \<open>Calls into Three.js and the browser whose effect lies outside the module, in order.\<close>

datatype call =
    NewWebGLRenderer
  | RendererRender nat "scene_child list" "pivot_group option"
  | RendererDispose
  | ClearRect nat real real
  | DrawImage nat real real
  | LoaderLoad nat "string option"
  | WindowOpen "string option" string
  | GeometryDispose nat
  | MaterialDispose nat

datatype js_error = TypeError

text \<open>
  The browser state this module instance can change: the event listeners it has
  registered, the canvases it has attached (canvas of icon \<open>k\<close>, container it hangs in),
  its pending animation-frame callbacks and the next request id, the elements its
  \<^verbatim>\<open>IntersectionObserver\<close> watches, the model loads in flight (by icon position), the log
  of outside calls, and the exceptions that escaped a callback.
\<close>

record env =
  listeners :: "(target \<times> string \<times> handler) list"
  attached :: "(nat \<times> nat) list"
  rafPending :: "nat list"
  rafNext :: nat
  observed :: "nat list"
  inflight :: "nat list"
  calls :: "call list"
  uncaught :: "js_error list"

text \<open>
  The page at the time \<^verbatim>\<open>initSocialIcons\<close> runs: the elements matching
  \<^verbatim>\<open>.social-icon-container\<close> in document order (the container at position \<open>k\<close> is
  \<open>Container k\<close>), each with its \<^verbatim>\<open>data-model\<close> and \<^verbatim>\<open>data-link\<close> attributes and the
  result of \<^verbatim>\<open>closest('footer')\<close>; the result of
  \<^verbatim>\<open>getElementById('social-links-3d')\<close>; and \<^verbatim>\<open>window.devicePixelRatio\<close>.
\<close>

record container_el =
  dataset_model :: "string option"
  dataset_link :: "string option"
  closest_footer :: "nat option"

record page =
  iconContainers :: "container_el list"
  social_links_3d :: "nat option"
  devicePixelRatio :: real

section \<open>Module state\<close>

record canvas =
  width :: real
  height :: real

record renderer =
  r_width :: real
  r_height :: real
  r_pixelRatio :: real

text \<open>\<^verbatim>\<open>iconData\<close>. The camera and the 2D context are fixed per icon and carry no state of
  their own here; \<open>windowListeners\<close> is \<^verbatim>\<open>icon._windowListeners\<close>.\<close>

record icon =
  container :: nat
  canvas2d :: canvas
  scene :: "scene_child list"
  link :: "string option"
  modelPath :: "string option"
  index :: nat
  pivot :: "pivot_group option"
  modelLoaded :: bool
  manualRotation :: real
  isDragging :: bool
  hasDragged :: bool
  lastX :: real
  windowListeners :: "(string \<times> handler) list"

text \<open>The variables of the closure of \<^verbatim>\<open>initSocialIcons\<close>, and the browser.\<close>

record state =
  pixelRatio :: real
  footer :: nat
  sharedRenderer :: "renderer option"
  icons :: "icon list"
  modelsRequested :: bool
  animFrameId :: "nat option"
  isAnimating :: bool
  world :: env

definition RENDER_SIZE :: real where
  "RENDER_SIZE = 80"

subsection \<open>Shared renderer\<close>

definition getSharedRenderer :: "state \<Rightarrow> renderer \<times> state" where
  "getSharedRenderer s =
     (case sharedRenderer s of
        Some r \<Rightarrow> (r, s)
      | None \<Rightarrow>
          (let r = \<lparr>r_width = RENDER_SIZE, r_height = RENDER_SIZE, r_pixelRatio = pixelRatio s\<rparr>
           in (r, s\<lparr>sharedRenderer := Some r,
                    world := (world s)\<lparr>calls := calls (world s) @ [NewWebGLRenderer]\<rparr>\<rparr>)))"

subsection \<open>Initialisation\<close>

text \<open>The first \<^verbatim>\<open>forEach\<close> over the containers: one \<^verbatim>\<open>iconData\<close> per container. The
  \<^verbatim>\<open>width\<close> and \<^verbatim>\<open>height\<close> attributes of a canvas hold whole numbers.\<close>

definition ambientLight :: object3d where
  "ambientLight = Object3D None NoMaterial []"

definition keyLight :: object3d where
  "keyLight = Object3D None NoMaterial []"

definition make_icon :: "real \<Rightarrow> nat \<Rightarrow> container_el \<Rightarrow> icon" where
  "make_icon ratio k c =
     \<lparr>container = k,
      canvas2d = \<lparr>width = of_int \<lfloor>RENDER_SIZE * ratio\<rfloor>, height = of_int \<lfloor>RENDER_SIZE * ratio\<rfloor>\<rparr>,
      scene = [Child ambientLight, Child keyLight],
      link = dataset_link c,
      modelPath = dataset_model c,
      index = k,
      pivot = None,
      modelLoaded = False,
      manualRotation = 0,
      isDragging = False,
      hasDragged = False,
      lastX = 0,
      windowListeners = []\<rparr>"

text \<open>The second \<^verbatim>\<open>forEach\<close>: the listeners of one icon, in the order of registration.\<close>

definition icon_window_listeners :: "nat \<Rightarrow> (string \<times> handler) list" where
  "icon_window_listeners k =
     [(''mousemove'', Handler k OnMouseMove),
      (''mouseup'', Handler k OnMouseUp),
      (''touchmove'', Handler k OnTouchMove),
      (''touchend'', Handler k OnTouchEnd)]"

definition icon_listeners :: "nat \<Rightarrow> (target \<times> string \<times> handler) list" where
  "icon_listeners k =
     [(Container k, ''mousedown'', Handler k OnMouseDown),
      (Window, ''mousemove'', Handler k OnMouseMove),
      (Window, ''mouseup'', Handler k OnMouseUp),
      (Container k, ''touchstart'', Handler k OnTouchStart),
      (Window, ''touchmove'', Handler k OnTouchMove),
      (Window, ''touchend'', Handler k OnTouchEnd),
      (Container k, ''click'', Handler k OnClick)]"

definition initSocialIcons :: "page \<Rightarrow> env \<Rightarrow> env + state" where
  "initSocialIcons p w =
     (case iconContainers p of
        [] \<Rightarrow> Inl w
      | c0 # _ \<Rightarrow>
         (case (case closest_footer c0 of Some f \<Rightarrow> Some f | None \<Rightarrow> social_links_3d p) of
            None \<Rightarrow> Inl w
          | Some f \<Rightarrow>
             (let ratio = min (devicePixelRatio p) 2;
                  n = length (iconContainers p);
                  ics = map (\<lambda>(k, c). make_icon ratio k c) (enumerate 0 (iconContainers p));
                  ics' = map (\<lambda>ic. ic\<lparr>windowListeners := icon_window_listeners (index ic)\<rparr>) ics
              in Inr \<lparr>pixelRatio = ratio,
                      footer = f,
                      sharedRenderer = None,
                      icons = ics',
                      modelsRequested = False,
                      animFrameId = None,
                      isAnimating = False,
                      world = w\<lparr>attached := attached w @ map (\<lambda>k. (k, k)) [0..<n],
                                listeners := listeners w @ concat (map icon_listeners [0..<n]),
                                observed := observed w @ [f]\<rparr>\<rparr>)))"

subsection \<open>Model loading\<close>

definition loadModels :: "state \<Rightarrow> state" where
  "loadModels s =
     (if modelsRequested s then s
      else s\<lparr>modelsRequested := True,
             world := (world s)
               \<lparr>calls := calls (world s) @ map (\<lambda>ic. LoaderLoad (index ic) (modelPath ic)) (icons s),
                inflight := inflight (world s) @ map index (icons s)\<rparr>\<rparr>)"

text \<open>The callback of \<^verbatim>\<open>gltfLoader.load\<close> for one icon.\<close>

definition gltf_scene :: "gltf \<Rightarrow> model3d" where
  "gltf_scene g =
     \<lparr>vertices = gltf_vertices g, nodes = gltf_nodes g, scale = Fin 1, position = (Fin 0, Fin 0, Fin 0)\<rparr>"

definition fit_model :: "gltf \<Rightarrow> model3d" where
  "fit_model g =
     (let model = gltf_scene g;
          box = setFromObject model;
          sz = getSize box;
          sc = js_div (fl 1.8) (maxDim sz);
          model = model\<lparr>scale := sc\<rparr>;
          scaledBox = setFromObject model;
          center = getCenter scaledBox
      in model\<lparr>position := (js_neg (vx center), js_neg (vy center), js_neg (vz center))\<rparr>)"

definition onModelLoaded :: "gltf \<Rightarrow> icon \<Rightarrow> icon" where
  "onModelLoaded g ic =
     (let model = fit_model g;
          pv = \<lparr>rotation_y = 0, child = model\<rparr>
      in ic\<lparr>scene := scene ic @ [PivotRef], pivot := Some pv, modelLoaded := True\<rparr>)"

subsection \<open>Drag to rotate, click to navigate\<close>

definition onDragStart :: "real \<Rightarrow> icon \<Rightarrow> icon" where
  "onDragStart clientX ic = ic\<lparr>isDragging := True, hasDragged := False, lastX := clientX\<rparr>"

definition onDragMove :: "real \<Rightarrow> icon \<Rightarrow> icon" where
  "onDragMove clientX ic =
     (if \<not> isDragging ic \<or> pivot ic = None then ic
      else
        (let deltaX = clientX - lastX ic;
             ic1 = (if \<bar>deltaX\<bar> > 2 then ic\<lparr>hasDragged := True\<rparr> else ic)
         in ic1\<lparr>manualRotation := manualRotation ic1 + deltaX * 0.02, lastX := clientX\<rparr>))"

definition onDragEnd :: "icon \<Rightarrow> icon" where
  "onDragEnd ic = ic\<lparr>isDragging := False\<rparr>"

definition touchMoveHandler :: "real \<Rightarrow> icon \<Rightarrow> icon" where
  "touchMoveHandler clientX ic = (if isDragging ic then onDragMove clientX ic else ic)"

text \<open>The click listener of an icon: the calls it makes.\<close>

definition onClick :: "icon \<Rightarrow> call list" where
  "onClick ic = (if \<not> hasDragged ic then [WindowOpen (link ic) ''_blank''] else [])"

subsection \<open>Animation loop\<close>

text \<open>
  The body of the \<^verbatim>\<open>forEach\<close> in \<^verbatim>\<open>animate\<close> for one icon: the icon afterwards, the
  calls made and the exception thrown, if any (\<^verbatim>\<open>icon.pivot.rotation.y = ...\<close> on a null
  pivot is a \<^verbatim>\<open>TypeError\<close>; in the auto-rotation branch \<^verbatim>\<open>manualRotation\<close> has been
  assigned by then).
\<close>

definition animate_icon :: "real \<Rightarrow> icon \<Rightarrow> icon \<times> call list \<times> js_error option" where
  "animate_icon time ic =
     (if \<not> modelLoaded ic then (ic, [], None)
      else
        (let autoRotation = time + real (index ic) * 0.5 in
         case pivot ic of
           None \<Rightarrow>
             ((if isDragging ic then ic else ic\<lparr>manualRotation := autoRotation\<rparr>), [], Some TypeError)
         | Some p \<Rightarrow>
             (let ic' = (if isDragging ic
                         then ic\<lparr>pivot := Some (p\<lparr>rotation_y := manualRotation ic\<rparr>)\<rparr>
                         else ic\<lparr>manualRotation := autoRotation,
                                 pivot := Some (p\<lparr>rotation_y := autoRotation\<rparr>)\<rparr>)
              in (ic',
                  [RendererRender (index ic') (scene ic') (pivot ic'),
                   ClearRect (index ic') (width (canvas2d ic')) (height (canvas2d ic')),
                   DrawImage (index ic') (width (canvas2d ic')) (height (canvas2d ic'))],
                  None))))"

text \<open>\<^verbatim>\<open>icons.forEach\<close>: an exception ends the loop and leaves the later icons untouched.\<close>

fun animate_forEach :: "real \<Rightarrow> icon list \<Rightarrow> icon list \<times> call list \<times> js_error option" where
  "animate_forEach time [] = ([], [], None)"
| "animate_forEach time (ic # rest) =
     (case animate_icon time ic of
        (ic', cs, Some e) \<Rightarrow> (ic' # rest, cs, Some e)
      | (ic', cs, None) \<Rightarrow>
          (case animate_forEach time rest of
             (rest', cs', e) \<Rightarrow> (ic' # rest', cs @ cs', e)))"

definition requestAnimationFrame :: "env \<Rightarrow> nat \<times> env" where
  "requestAnimationFrame w =
     (rafNext w, w\<lparr>rafPending := rafPending w @ [rafNext w], rafNext := Suc (rafNext w)\<rparr>)"

definition cancelAnimationFrame :: "nat \<Rightarrow> env \<Rightarrow> env" where
  "cancelAnimationFrame i w = w\<lparr>rafPending := removeAll i (rafPending w)\<rparr>"

text \<open>\<open>now\<close> is what \<^verbatim>\<open>Date.now()\<close> returns, in milliseconds.\<close>

definition animate :: "real \<Rightarrow> state \<Rightarrow> state" where
  "animate now s =
     (if \<not> isAnimating s then s
      else
        (let (i, w1) = requestAnimationFrame (world s);
             s1 = s\<lparr>animFrameId := Some i, world := w1\<rparr>;
             (r, s2) = getSharedRenderer s1;
             time = now * 0.001
         in case animate_forEach time (icons s2) of
              (ics, cs, e) \<Rightarrow>
                s2\<lparr>icons := ics,
                   world := (world s2)
                     \<lparr>calls := calls (world s2) @ cs,
                      uncaught := uncaught (world s2) @ (case e of None \<Rightarrow> [] | Some x \<Rightarrow> [x])\<rparr>\<rparr>))"

definition startAnimating :: "real \<Rightarrow> state \<Rightarrow> state" where
  "startAnimating now s =
     (if isAnimating s then s
      else animate now (loadModels (s\<lparr>isAnimating := True\<rparr>)))"

definition stopAnimating :: "state \<Rightarrow> state" where
  "stopAnimating s =
     (let s1 = s\<lparr>isAnimating := False\<rparr>
      in case animFrameId s1 of
           None \<Rightarrow> s1
         | Some i \<Rightarrow> s1\<lparr>animFrameId := None, world := cancelAnimationFrame i (world s1)\<rparr>)"

subsection \<open>Visibility gate\<close>

text \<open>The observer's callback over the \<^verbatim>\<open>isIntersecting\<close> flags of its entries.\<close>

fun observerCallback :: "bool list \<Rightarrow> real \<Rightarrow> state \<Rightarrow> state" where
  "observerCallback [] now s = s"
| "observerCallback (e # es) now s =
     observerCallback es now (if e then startAnimating now s else stopAnimating s)"

subsection \<open>Cleanup\<close>

text \<open>\<^verbatim>\<open>scene.traverse\<close> visits an object and then its descendants.\<close>

fun traverse :: "object3d \<Rightarrow> object3d list" where
  "traverse (Object3D g m cs) = Object3D g m cs # concat (map traverse cs)"

text \<open>The objects of an icon's scene as \<^verbatim>\<open>traverse\<close> meets them: the scene itself, its
  children, and under the pivot reference the pivot group, the model group and its nodes.\<close>

definition scene_graph :: "icon \<Rightarrow> object3d" where
  "scene_graph ic =
     Object3D None NoMaterial
       (concat (map (\<lambda>c. case c of
                       Child ob \<Rightarrow> [ob]
                     | PivotRef \<Rightarrow>
                         (case pivot ic of
                            None \<Rightarrow> []
                          | Some p \<Rightarrow> [Object3D None NoMaterial [Object3D None NoMaterial (nodes (child p))]]))
                    (scene ic)))"

definition dispose_object :: "object3d \<Rightarrow> call list" where
  "dispose_object ob =
     (case geometry ob of None \<Rightarrow> [] | Some g \<Rightarrow> [GeometryDispose g]) @
     (case material ob of
        NoMaterial \<Rightarrow> []
      | Material m \<Rightarrow> [MaterialDispose m]
      | Materials ms \<Rightarrow> map MaterialDispose ms)"

text \<open>The materials an object holds in \<^verbatim>\<open>obj.material\<close>.\<close>

fun materials_of :: "material \<Rightarrow> nat list" where
  "materials_of NoMaterial = []"
| "materials_of (Material m) = [m]"
| "materials_of (Materials ms) = ms"

definition removeWindowListeners :: "icon list \<Rightarrow> (target \<times> string \<times> handler) list \<Rightarrow> (target \<times> string \<times> handler) list" where
  "removeWindowListeners ics ls =
     foldl (\<lambda>ls ic. foldl (\<lambda>ls (ev, h). remove1 (Window, ev, h) ls) ls (windowListeners ic)) ls ics"

text \<open>The second loop of \<^verbatim>\<open>dispose\<close> for one icon: release the resources of its scene,
  then take its canvas out of the page if it has a parent.\<close>

definition dispose_icon :: "env \<Rightarrow> icon \<Rightarrow> env" where
  "dispose_icon w ic =
     (let w1 = w\<lparr>calls := calls w @ concat (map dispose_object (traverse (scene_graph ic)))\<rparr>
      in case map_of (attached w1) (index ic) of
           None \<Rightarrow> w1
         | Some parent \<Rightarrow> w1\<lparr>attached := filter (\<lambda>(c, p). c \<noteq> index ic) (attached w1)\<rparr>)"

definition dispose :: "state \<Rightarrow> state" where
  "dispose s =
     (let s1 = stopAnimating s;
          w1 = (world s1)\<lparr>observed := []\<rparr>;
          w2 = w1\<lparr>listeners := removeWindowListeners (icons s1) (listeners w1)\<rparr>;
          w3 = foldl dispose_icon w2 (icons s1)
      in case sharedRenderer s1 of
           None \<Rightarrow> s1\<lparr>world := w3\<rparr>
         | Some r \<Rightarrow> s1\<lparr>sharedRenderer := None, world := w3\<lparr>calls := calls w3 @ [RendererDispose]\<rparr>\<rparr>)"

section \<open>Events\<close>

text \<open>
  What can happen to an initialised module: an event of some type dispatched at a target
  (with \<^verbatim>\<open>e.clientX\<close>, or \<^verbatim>\<open>e.touches[0].clientX\<close> for a touch event); the observer
  reporting entries; the browser running a pending animation-frame callback; a model
  load completing; the page calling \<^verbatim>\<open>dispose()\<close>.
\<close>

datatype event =
    DomEvent target string real
  | Intersection "bool list" real
  | AnimationFrame nat real
  | GltfLoaded nat gltf
  | DisposeCall

text \<open>
  A listener works on the icon its closure captured, the one at position \<open>k\<close>. The
  \<^verbatim>\<open>preventDefault\<close> of the mouse-down listener touches no state of the module and is
  left out.
\<close>

definition upd_icon :: "nat \<Rightarrow> (icon \<Rightarrow> icon) \<Rightarrow> state \<Rightarrow> state" where
  "upd_icon k f s = (if k < length (icons s) then s\<lparr>icons := (icons s)[k := f (icons s ! k)]\<rparr> else s)"

fun run_handler :: "real \<Rightarrow> state \<Rightarrow> handler \<Rightarrow> state" where
  "run_handler x s (Handler k OnMouseDown) = upd_icon k (onDragStart x) s"
| "run_handler x s (Handler k OnMouseMove) = upd_icon k (onDragMove x) s"
| "run_handler x s (Handler k OnMouseUp) = upd_icon k onDragEnd s"
| "run_handler x s (Handler k OnTouchStart) = upd_icon k (onDragStart x) s"
| "run_handler x s (Handler k OnTouchMove) = upd_icon k (touchMoveHandler x) s"
| "run_handler x s (Handler k OnTouchEnd) = upd_icon k onDragEnd s"
| "run_handler x s (Handler k OnClick) =
     (if k < length (icons s)
      then s\<lparr>world := (world s)\<lparr>calls := calls (world s) @ onClick (icons s ! k)\<rparr>\<rparr>
      else s)"

definition handlers_for :: "target \<Rightarrow> string \<Rightarrow> (target \<times> string \<times> handler) list \<Rightarrow> handler list" where
  "handlers_for tgt ev ls = map (\<lambda>l. snd (snd l)) (filter (\<lambda>l. fst l = tgt \<and> fst (snd l) = ev) ls)"

definition dispatchEvent :: "target \<Rightarrow> string \<Rightarrow> real \<Rightarrow> state \<Rightarrow> state" where
  "dispatchEvent tgt ev x s = foldl (run_handler x) s (handlers_for tgt ev (listeners (world s)))"

fun step :: "event \<Rightarrow> state \<Rightarrow> state" where
  "step (DomEvent tgt ev x) s = dispatchEvent tgt ev x s"
| "step (Intersection es now) s =
     (if observed (world s) = [] then s else observerCallback es now s)"
| "step (AnimationFrame i now) s =
     (if i \<in> set (rafPending (world s))
      then animate now (s\<lparr>world := (world s)\<lparr>rafPending := removeAll i (rafPending (world s))\<rparr>\<rparr>)
      else s)"
| "step (GltfLoaded k g) s =
     (if k \<in> set (inflight (world s))
      then upd_icon k (onModelLoaded g) (s\<lparr>world := (world s)\<lparr>inflight := remove1 k (inflight (world s))\<rparr>\<rparr>)
      else s)"
| "step DisposeCall s = dispose s"

definition run :: "event list \<Rightarrow> state \<Rightarrow> state" where
  "run evs s = foldl (\<lambda>s e. step e s) s evs"

text \<open>A browser in which the module has not run yet; \<open>n\<close> is the next animation-frame id.\<close>

definition fresh_env :: "nat \<Rightarrow> env" where
  "fresh_env n =
     \<lparr>listeners = [], attached = [], rafPending = [], rafNext = n, observed = [],
      inflight = [], calls = [], uncaught = []\<rparr>"

text \<open>The state after \<^verbatim>\<open>initSocialIcons\<close> on page \<open>p\<close> and then the events \<open>evs\<close>, when the
  initialisation returned its handle.\<close>

definition started :: "page \<Rightarrow> nat \<Rightarrow> event list \<Rightarrow> state option" where
  "started p n evs =
     (case initSocialIcons p (fresh_env n) of Inl w \<Rightarrow> None | Inr s0 \<Rightarrow> Some (run evs s0))"

section \<open>Drag gestures\<close>

text \<open>A drag: pointer-down at \<open>x0\<close>, then pointer-moves to the positions \<open>xs\<close>. The movement
  of each pointer-move event, measured from the position before it:\<close>

fun deltas :: "real \<Rightarrow> real list \<Rightarrow> real list" where
  "deltas x0 [] = []"
| "deltas x0 (x # xs) = (x - x0) # deltas x xs"

text \<open>Two readings of the cumulative movement since the start of a drag: the distance
  travelled, and the distance from the start.\<close>

definition total_movement :: "real \<Rightarrow> real list \<Rightarrow> real" where
  "total_movement x0 xs = sum_list (map abs (deltas x0 xs))"

definition net_movement :: "real \<Rightarrow> real list \<Rightarrow> real" where
  "net_movement x0 xs = \<bar>last (x0 # xs) - x0\<bar>"

section \<open>Frames as the specification words them\<close>

text \<open>What a frame at time \<open>t\<close> (in seconds) does to one icon, and the calls it makes for it.\<close>

definition frame_icon :: "real \<Rightarrow> icon \<Rightarrow> icon" where
  "frame_icon t ic =
     (if \<not> modelLoaded ic then ic
      else if isDragging ic
      then ic\<lparr>pivot := map_option (\<lambda>p. p\<lparr>rotation_y := manualRotation ic\<rparr>) (pivot ic)\<rparr>
      else ic\<lparr>manualRotation := t + real (index ic) * 0.5,
              pivot := map_option (\<lambda>p. p\<lparr>rotation_y := t + real (index ic) * 0.5\<rparr>) (pivot ic)\<rparr>)"

definition frame_calls :: "real \<Rightarrow> icon \<Rightarrow> call list" where
  "frame_calls t ic =
     (if \<not> modelLoaded ic then []
      else [RendererRender (index ic) (scene ic) (pivot (frame_icon t ic)),
            ClearRect (index ic) (width (canvas2d ic)) (height (canvas2d ic)),
            DrawImage (index ic) (width (canvas2d ic)) (height (canvas2d ic))])"

section \<open>Invariants of the running module\<close>

text \<open>The fields of an icon that are assigned once, at initialisation.\<close>

definition ident :: "icon \<Rightarrow> nat \<times> canvas \<times> string option \<times> string option \<times> nat \<times> (string \<times> handler) list" where
  "ident ic = (container ic, canvas2d ic, link ic, modelPath ic, index ic, windowListeners ic)"

text \<open>The pivot is there exactly when the model is marked loaded, only an icon with a
  pivot can have been dragged, and a pivot that is there is part of the scene.\<close>

definition icon_inv :: "icon \<Rightarrow> bool" where
  "icon_inv ic =
     ((modelLoaded ic \<longleftrightarrow> pivot ic \<noteq> None)
      \<and> (hasDragged ic \<longrightarrow> pivot ic \<noteq> None)
      \<and> (pivot ic \<noteq> None \<longrightarrow> PivotRef \<in> set (scene ic)))"

text \<open>The loop runs exactly when one frame callback is pending, the one \<^verbatim>\<open>animFrameId\<close> names.\<close>

definition loop_inv :: "state \<Rightarrow> bool" where
  "loop_inv s =
     (case animFrameId s of
        Some i \<Rightarrow> isAnimating s \<and> rafPending (world s) = [i]
      | None \<Rightarrow> \<not> isAnimating s \<and> rafPending (world s) = [])"

definition constructed :: "env \<Rightarrow> nat" where
  "constructed w = length (filter (\<lambda>c. c = NewWebGLRenderer) (calls w))"

definition renderer_inv :: "state \<Rightarrow> bool" where
  "renderer_inv s =
     (case sharedRenderer s of
        Some r \<Rightarrow>
          r = \<lparr>r_width = RENDER_SIZE, r_height = RENDER_SIZE, r_pixelRatio = pixelRatio s\<rparr>
          \<and> constructed (world s) = 1
      | None \<Rightarrow>
          constructed (world s) = 0
          \<or> (constructed (world s) = 1 \<and> observed (world s) = [] \<and> \<not> isAnimating s))"

fun is_load :: "call \<Rightarrow> bool" where
  "is_load (LoaderLoad k path) = True"
| "is_load c = False"

fun is_draw :: "call \<Rightarrow> bool" where
  "is_draw (RendererRender k sc pv) = True"
| "is_draw (ClearRect k w h) = True"
| "is_draw (DrawImage k w h) = True"
| "is_draw c = False"

definition loads_inv :: "state \<Rightarrow> bool" where
  "loads_inv s =
     (filter is_load (calls (world s)) =
        (if modelsRequested s then map (\<lambda>ic. LoaderLoad (index ic) (modelPath ic)) (icons s) else []))"

text \<open>What stays as initialisation left it (\<open>s0\<close> is the state then): the assigned-once
  fields of the icons, the pixel ratio and the footer; listeners and canvases are only
  ever taken away, and never a listener on a container.\<close>

definition stable :: "state \<Rightarrow> state \<Rightarrow> bool" where
  "stable s0 s =
     (map ident (icons s) = map ident (icons s0)
      \<and> pixelRatio s = pixelRatio s0
      \<and> footer s = footer s0
      \<and> distinct (listeners (world s))
      \<and> set (listeners (world s)) \<subseteq> set (listeners (world s0))
      \<and> filter (\<lambda>l. fst l \<noteq> Window) (listeners (world s)) = filter (\<lambda>l. fst l \<noteq> Window) (listeners (world s0))
      \<and> set (attached (world s)) \<subseteq> set (attached (world s0)))"

definition inv :: "state \<Rightarrow> state \<Rightarrow> bool" where
  "inv s0 s =
     (loop_inv s \<and> renderer_inv s \<and> loads_inv s \<and> list_all icon_inv (icons s) \<and> stable s0 s
      \<and> (isAnimating s \<longrightarrow> modelsRequested s))"


section \<open>Example inputs\<close>

definition example_page :: page where
  "example_page =
     \<lparr>iconContainers =
        [\<lparr>dataset_model = Some ''models/github.glb'', dataset_link = Some ''https://github.com'',
          closest_footer = Some 7\<rparr>,
         \<lparr>dataset_model = Some ''models/mail.glb'', dataset_link = Some ''mailto:me@example.org'',
          closest_footer = Some 7\<rparr>],
      social_links_3d = None,
      devicePixelRatio = 3\<rparr>"

definition empty_gltf :: gltf where
  "empty_gltf = \<lparr>gltf_vertices = [], gltf_nodes = []\<rparr>"

text \<open>Two boxes on which the arithmetic of the load callback rounds.\<close>

definition skew_gltf :: gltf where
  "skew_gltf = \<lparr>gltf_vertices = [(- 1, - 1, - 1), (2, 0, 0)], gltf_nodes = []\<rparr>"

definition offset_gltf :: gltf where
  "offset_gltf = \<lparr>gltf_vertices = [(1, 0, 0), (4, 1, 1)], gltf_nodes = []\<rparr>"

definition example_gltf :: gltf where
  "example_gltf =
     \<lparr>gltf_vertices = [(0, 0, 0), (1, 2, 4)],
      gltf_nodes = [Object3D (Some 1) (Material 2) [], Object3D (Some 3) (Materials [4, 5]) []]\<rparr>"

section \<open>Double arithmetic in the load callback\<close>

lemma floor_log2:
  assumes "2 powr (of_int e) \<le> x" and "x < 2 powr (of_int e + 1)"
  shows "\<lfloor>log 2 x\<rfloor> = e"
proof -
  have pos: "0 < x" using assms(1) by (rule less_le_trans [rotated]) simp
  have "of_int e \<le> log 2 x" using assms(1) pos by (simp add: le_log_iff)
  moreover have "log 2 x < of_int e + 1" using assms(2) pos by (simp add: log_less_iff)
  ultimately show ?thesis by (rule floor_unique)
qed

lemma round_even_bounds: "\<bar>of_int (round_even r) - r\<bar> \<le> 1 / 2"
proof -
  have "of_int \<lfloor>r\<rfloor> \<le> r" "r < of_int \<lfloor>r\<rfloor> + 1" by linarith+
  then show ?thesis by (auto simp: round_even_def Let_def)
qed

text \<open>The value of \<open>fl\<close> at a number of magnitude below \<open>2 ^ 53\<close> whose binary exponent is
  \<open>52 - k\<close>.\<close>

lemma fl_eval:
  assumes lo: "2 ^ 52 \<le> \<bar>x\<bar> * 2 ^ k" and hi: "\<bar>x\<bar> * 2 ^ k < 2 ^ 53" and k: "k \<le> 1074"
  shows "fl x = Fin (of_int (round_even (x * 2 ^ k)) / 2 ^ k)"
proof -
  have x0: "x \<noteq> 0" using lo by auto
  define e where "e = 52 - int k"
  have p: "(2::real) powr (of_int e) = 2 ^ 52 / 2 ^ k"
    by (simp add: e_def powr_diff powr_realpow)
  have p1: "(2::real) powr (of_int e + 1) = 2 ^ 53 / 2 ^ k"
    by (simp add: e_def powr_diff powr_add powr_realpow)
  have "2 powr (of_int e) \<le> \<bar>x\<bar>" unfolding p using lo by (simp add: divide_le_eq)
  moreover have "\<bar>x\<bar> < 2 powr (of_int e + 1)" unfolding p1 using hi by (simp add: less_divide_eq)
  ultimately have fl2: "\<lfloor>log 2 \<bar>x\<bar>\<rfloor> = e" by (rule floor_log2)
  have em: "max e (- 1022) = e" using k by (simp add: e_def)
  have q: "(2::real) powr (of_int e - 52) = 1 / 2 ^ k"
    by (simp add: e_def powr_minus powr_realpow divide_simps)
  define y where "y = of_int (round_even (x * 2 ^ k)) / (2::real) ^ k"
  have "\<bar>of_int (round_even (x * 2 ^ k)) - x * 2 ^ k\<bar> \<le> 1 / 2" by (rule round_even_bounds)
  then have "\<bar>of_int (round_even (x * 2 ^ k))\<bar> \<le> \<bar>x * 2 ^ k\<bar> + 1 / 2" by linarith
  also have "\<dots> < 2 ^ 53 + 1 / 2" using hi by (simp add: abs_mult)
  finally have r: "\<bar>real_of_int (round_even (x * 2 ^ k))\<bar> < 2 ^ 53 + 1 / 2" .
  have "\<bar>y\<bar> = \<bar>real_of_int (round_even (x * 2 ^ k))\<bar> / 2 ^ k" by (simp add: y_def)
  also have "\<dots> \<le> \<bar>real_of_int (round_even (x * 2 ^ k))\<bar>"
    by (simp add: divide_le_eq mult_le_cancel_left1)
  also have "\<dots> < 2 ^ 53 + 1 / 2" by (rule r)
  also have "\<dots> < (2::real) ^ 1024" by simp
  finally have yb: "\<bar>y\<bar> < 2 ^ 1024" .
  have big: "(2::real) powr 1024 = 2 ^ 1024" by (simp add: powr_numeral)
  have "fl x = (if 2 powr 1024 \<le> y then PosInf else if y \<le> - (2 powr 1024) then NegInf else Fin y)"
    using x0 by (simp add: fl_def Let_def fl2 em q y_def)
  also have "\<dots> = Fin y" using yb by (auto simp: big)
  finally show ?thesis by (simp add: y_def)
qed

text \<open>Rounding a number in the range of the normal doubles changes it by at most the
  fraction \<open>2 ^ -53\<close> of itself.\<close>

lemma fl_rel:
  assumes lo: "1 / 2 ^ 1022 \<le> \<bar>x\<bar>" and hi: "\<bar>x\<bar> \<le> 2 ^ 1023"
  shows "\<exists>y. fl x = Fin y \<and> \<bar>y - x\<bar> \<le> \<bar>x\<bar> / 2 ^ 53"
proof -
  have x0: "x \<noteq> 0" and xp: "0 < \<bar>x\<bar>" using lo by auto
  define e where "e = \<lfloor>log 2 \<bar>x\<bar>\<rfloor>"
  have "(2::real) powr (- 1022) = 1 / 2 ^ 1022"
    by (simp add: powr_minus powr_realpow divide_simps)
  with lo have "2 powr (- 1022) \<le> \<bar>x\<bar>" by simp
  then have "- 1022 \<le> log 2 \<bar>x\<bar>" using xp by (simp add: le_log_iff)
  then have e_lo: "- 1022 \<le> e" unfolding e_def by (simp add: le_floor_iff)
  have "of_int e \<le> log 2 \<bar>x\<bar>" unfolding e_def by simp
  then have p_lo: "2 powr (of_int e) \<le> \<bar>x\<bar>" using xp by (simp add: le_log_iff)
  define q where "q = (2::real) powr (of_int e - 52)"
  have qp: "0 < q" by (simp add: q_def)
  have q2: "q = 2 powr (of_int e) / 2 ^ 52"
    by (simp add: q_def powr_diff powr_realpow [symmetric])
  define y where "y = of_int (round_even (x / q)) * q"
  have "\<bar>y - x\<bar> = \<bar>of_int (round_even (x / q)) - x / q\<bar> * q"
  proof -
    have "y - x = (of_int (round_even (x / q)) - x / q) * q"
      using qp by (simp add: y_def field_simps)
    then show ?thesis using qp by (simp add: abs_mult)
  qed
  also have "\<dots> \<le> 1 / 2 * q"
    by (rule mult_right_mono [OF round_even_bounds]) (use qp in simp)
  also have "\<dots> = 2 powr (of_int e) / 2 ^ 53" by (simp add: q2)
  also have "\<dots> \<le> \<bar>x\<bar> / 2 ^ 53" using p_lo by (simp add: divide_right_mono)
  finally have err: "\<bar>y - x\<bar> \<le> \<bar>x\<bar> / 2 ^ 53" .
  have "\<bar>y\<bar> \<le> \<bar>x\<bar> + \<bar>x\<bar> / 2 ^ 53" using err by linarith
  also have "\<dots> \<le> 2 ^ 1023 + 2 ^ 1023 / 2 ^ 53"
    using hi by (intro add_mono divide_right_mono) simp_all
  also have "\<dots> < (2::real) ^ 1024" by simp
  finally have yb: "\<bar>y\<bar> < 2 ^ 1024" .
  have big: "(2::real) powr 1024 = 2 ^ 1024" by (simp add: powr_numeral)
  have em: "max e (- 1022) = e" using e_lo by simp
  have "fl x = (if 2 powr 1024 \<le> y then PosInf else if y \<le> - (2 powr 1024) then NegInf else Fin y)"
    using x0 by (simp add: fl_def Let_def e_def [symmetric] em q_def [symmetric] y_def)
  also have "\<dots> = Fin y" using yb by (auto simp: big)
  finally show ?thesis using err by blast
qed

text \<open>The quotient of the double 1.8 and \<open>d\<close>, multiplied by \<open>d\<close> exactly.\<close>

lemma scale_accuracy:
  assumes d: "1 / 2 ^ 1021 \<le> d" "d \<le> 2 ^ 1021"
  shows "\<exists>r. fl (8106479329266893 / 2 ^ 52 / d) = Fin r \<and> \<bar>r * d - 1.8\<bar> \<le> 1.8 / 2 ^ 52"
proof -
  define c :: real where "c = 8106479329266893 / 2 ^ 52"
  have dp: "0 < d" using d(1) by (rule less_le_trans [rotated]) simp
  have c1: "1 \<le> c" and c2: "c \<le> 2" by (simp_all add: c_def)
  have cp: "0 < c" using c1 by simp
  have "1 / 2 ^ 1022 \<le> 1 / d"
  proof -
    have "d \<le> 2 ^ 1022" using d(2) by simp
    then show ?thesis using dp by (simp add: field_simps)
  qed
  also have "\<dots> \<le> c / d" using c1 dp by (simp add: divide_right_mono)
  finally have lo: "1 / 2 ^ 1022 \<le> \<bar>c / d\<bar>" using cp dp by simp
  have "c / d \<le> 2 / d" using c2 dp by (simp add: divide_right_mono)
  also have "\<dots> \<le> 2 ^ 1023"
  proof -
    have "2 \<le> 2 ^ 1023 * (1 / 2 ^ 1021 :: real)" by simp
    also have "\<dots> \<le> 2 ^ 1023 * d" using d(1) by (intro mult_left_mono) simp_all
    finally show ?thesis using dp by (simp add: field_simps)
  qed
  finally have hi: "\<bar>c / d\<bar> \<le> 2 ^ 1023" using cp dp by simp
  from fl_rel [OF lo hi] obtain r where r: "fl (c / d) = Fin r" and e: "\<bar>r - c / d\<bar> \<le> \<bar>c / d\<bar> / 2 ^ 53"
    by blast
  have "\<bar>r * d - c\<bar> = \<bar>r - c / d\<bar> * d"
  proof -
    have "r * d - c = (r - c / d) * d" using dp by (simp add: field_simps)
    then show ?thesis using dp by (simp add: abs_mult)
  qed
  also have "\<dots> \<le> \<bar>c / d\<bar> / 2 ^ 53 * d" using e dp by (intro mult_right_mono) simp_all
  also have "\<dots> = c / 2 ^ 53" using cp dp by simp
  finally have 1: "\<bar>r * d - c\<bar> \<le> c / 2 ^ 53" .
  have 2: "c / 2 ^ 53 + \<bar>c - 1.8\<bar> \<le> 1.8 / 2 ^ 52" by (simp add: c_def)
  have "\<bar>r * d - 1.8\<bar> \<le> \<bar>r * d - c\<bar> + \<bar>c - 1.8\<bar>" by linarith
  with 1 2 have "\<bar>r * d - 1.8\<bar> \<le> 1.8 / 2 ^ 52" by linarith
  with r show ?thesis unfolding c_def by blast
qed

lemma fl_zero: "fl 0 = Fin 0"
  by (simp add: fl_def)

lemmas fl_k = fl_eval [where k = 50] fl_eval [where k = 51] fl_eval [where k = 52]
  fl_eval [where k = 53] fl_eval [where k = 54] fl_eval [where k = 105] fl_eval [where k = 106]

lemmas num_eval = fit_model_def Let_def maxDim_def js_sub_def vx_def vy_def vz_def
  setFromObject_def to_world_def gltf_scene_def fl_zero fl_k round_even_def

text \<open>The literal \<^verbatim>\<open>1.8\<close> is the double \<open>8106479329266893 / 2 ^ 52\<close>.\<close>

lemma fl_1_8: "fl 1.8 = Fin (8106479329266893 / 2 ^ 52)"
  by (simp add: fl_k round_even_def Let_def)

lemma empty_fit:
  "fit_model empty_gltf = \<lparr>vertices = [], nodes = [], scale = PosInf, position = (Fin 0, Fin 0, Fin 0)\<rparr>"
  by (simp add: empty_gltf_def num_eval fl_1_8 signed_inf_def)

lemma skew_fit:
  "fit_model skew_gltf =
     \<lparr>vertices = [(- 1, - 1, - 1), (2, 0, 0)], nodes = [],
      scale = Fin (5404319552844595 / 2 ^ 53),
      position = (Fin (- (5404319552844595 / 2 ^ 54)), Fin (5404319552844595 / 2 ^ 54),
                  Fin (5404319552844595 / 2 ^ 54))\<rparr>"
  by (simp add: skew_gltf_def num_eval)

lemma skew_box:
  "setFromObject (fit_model skew_gltf) =
     Some ((Fin (- (8106479329266892 / 2 ^ 53)), Fin (- (5404319552844595 / 2 ^ 54)),
            Fin (- (5404319552844595 / 2 ^ 54))),
           (Fin (8106479329266892 / 2 ^ 53), Fin (5404319552844595 / 2 ^ 54),
            Fin (5404319552844595 / 2 ^ 54)))"
  unfolding skew_fit by (simp add: num_eval)

lemma offset_fit:
  "fit_model offset_gltf =
     \<lparr>vertices = [(1, 0, 0), (4, 1, 1)], nodes = [],
      scale = Fin (5404319552844595 / 2 ^ 53),
      position = (Fin (- (3 / 2)), Fin (- (5404319552844595 / 2 ^ 54)),
                  Fin (- (5404319552844595 / 2 ^ 54)))\<rparr>"
  by (simp add: offset_gltf_def num_eval)

lemma offset_box:
  "setFromObject (fit_model offset_gltf) =
     Some ((Fin (- (8106479329266893 / 2 ^ 53)), Fin (- (5404319552844595 / 2 ^ 54)),
            Fin (- (5404319552844595 / 2 ^ 54))),
           (Fin (8106479329266892 / 2 ^ 53), Fin (5404319552844595 / 2 ^ 54),
            Fin (5404319552844595 / 2 ^ 54)))"
  unfolding offset_fit by (simp add: num_eval)

lemma example_fit:
  "fit_model example_gltf =
     \<lparr>vertices = [(0, 0, 0), (1, 2, 4)],
      nodes = [Object3D (Some 1) (Material 2) [], Object3D (Some 3) (Materials [4, 5]) []],
      scale = Fin (8106479329266893 / 2 ^ 54),
      position = (Fin (- (8106479329266893 / 2 ^ 55)), Fin (- (8106479329266893 / 2 ^ 54)),
                  Fin (- (8106479329266893 / 2 ^ 53)))\<rparr>"
  by (simp add: example_gltf_def num_eval fl_eval [where k = 55])

lemma example_box:
  "setFromObject (fit_model example_gltf) =
     Some ((Fin (- (8106479329266893 / 2 ^ 55)), Fin (- (8106479329266893 / 2 ^ 54)),
            Fin (- (8106479329266893 / 2 ^ 53))),
           (Fin (8106479329266893 / 2 ^ 55), Fin (8106479329266893 / 2 ^ 54),
            Fin (8106479329266893 / 2 ^ 53)))"
  unfolding example_fit by (simp add: num_eval fl_eval [where k = 55])

text \<open>
  Claim C5, as amended. The load callback gives the model the uniform scale
  \<^verbatim>\<open>1.8 / maxDim\<close>, the quotient of the doubles 1.8 and \<open>maxDim\<close>, where \<open>maxDim\<close> is the
  largest dimension of the model's bounding box: for a positive \<open>maxDim\<close> the double
  nearest to the exact quotient, for a model without vertices \<^verbatim>\<open>Infinity\<close>. For a \<open>maxDim\<close>
  between \<open>2 ^ -1021\<close> and \<open>2 ^ 1021\<close> the scale is finite, and its exact product with
  \<open>maxDim\<close> differs from 1.8 by at most the fraction \<open>2 ^ -52\<close> of 1.8. The callback then
  sets the position to the negated centre of the bounding box recomputed with that scale.
  The model becomes the child of a new pivot group with yaw 0, which is appended to the
  icon's scene and stored in \<open>pivot\<close>, and \<open>modelLoaded\<close> is set.
\<close>

theorem model_fitted_on_load:
  "pivot (onModelLoaded g ic) = Some \<lparr>rotation_y = 0, child = fit_model g\<rparr>
   \<and> scene (onModelLoaded g ic) = scene ic @ [PivotRef]
   \<and> modelLoaded (onModelLoaded g ic)
   \<and> vertices (fit_model g) = gltf_vertices g
   \<and> nodes (fit_model g) = gltf_nodes g
   \<and> scale (fit_model g) = js_div (fl 1.8) (maxDim (getSize (setFromObject (gltf_scene g))))
   \<and> position (fit_model g)
       = (js_neg (vx (getCenter (setFromObject ((gltf_scene g)\<lparr>scale := scale (fit_model g)\<rparr>)))),
          js_neg (vy (getCenter (setFromObject ((gltf_scene g)\<lparr>scale := scale (fit_model g)\<rparr>)))),
          js_neg (vz (getCenter (setFromObject ((gltf_scene g)\<lparr>scale := scale (fit_model g)\<rparr>)))))
   \<and> (\<forall>d. maxDim (getSize (setFromObject (gltf_scene g))) = Fin d \<and> 0 < d \<longrightarrow>
         scale (fit_model g) = fl (8106479329266893 / 2 ^ 52 / d))
   \<and> (\<forall>d. maxDim (getSize (setFromObject (gltf_scene g))) = Fin d
           \<and> 1 / 2 ^ 1021 \<le> d \<and> d \<le> 2 ^ 1021 \<longrightarrow>
         (\<exists>r. scale (fit_model g) = Fin r \<and> \<bar>r * d - 1.8\<bar> \<le> 1.8 / 2 ^ 52))
   \<and> (gltf_vertices g = [] \<longrightarrow> scale (fit_model g) = PosInf)"
proof -
  have 1: "pivot (onModelLoaded g ic) = Some \<lparr>rotation_y = 0, child = fit_model g\<rparr>
      \<and> scene (onModelLoaded g ic) = scene ic @ [PivotRef] \<and> modelLoaded (onModelLoaded g ic)"
    by (simp add: onModelLoaded_def)
  have 2: "vertices (fit_model g) = gltf_vertices g \<and> nodes (fit_model g) = gltf_nodes g"
    by (simp add: fit_model_def Let_def gltf_scene_def)
  have 3: "scale (fit_model g) = js_div (fl 1.8) (maxDim (getSize (setFromObject (gltf_scene g))))"
    by (simp add: fit_model_def Let_def)
  have 4: "position (fit_model g)
      = (js_neg (vx (getCenter (setFromObject ((gltf_scene g)\<lparr>scale := scale (fit_model g)\<rparr>)))),
         js_neg (vy (getCenter (setFromObject ((gltf_scene g)\<lparr>scale := scale (fit_model g)\<rparr>)))),
         js_neg (vz (getCenter (setFromObject ((gltf_scene g)\<lparr>scale := scale (fit_model g)\<rparr>)))))"
    unfolding 3 by (simp add: fit_model_def Let_def)
  have 5: "\<forall>d. maxDim (getSize (setFromObject (gltf_scene g))) = Fin d \<and> 0 < d \<longrightarrow>
      scale (fit_model g) = fl (8106479329266893 / 2 ^ 52 / d)"
    unfolding 3 fl_1_8 by auto
  have "maxDim (getSize (setFromObject (gltf_scene g))) = Fin 0" if "gltf_vertices g = []"
    using that by (simp add: setFromObject_def gltf_scene_def maxDim_def vx_def vy_def vz_def)
  then have 6: "gltf_vertices g = [] \<longrightarrow> scale (fit_model g) = PosInf"
    unfolding 3 fl_1_8 by (auto simp: signed_inf_def)
  have 7: "\<forall>d. maxDim (getSize (setFromObject (gltf_scene g))) = Fin d
        \<and> 1 / 2 ^ 1021 \<le> d \<and> d \<le> 2 ^ 1021 \<longrightarrow>
      (\<exists>r. scale (fit_model g) = Fin r \<and> \<bar>r * d - 1.8\<bar> \<le> 1.8 / 2 ^ 52)"
  proof (intro allI impI)
    fix d
    assume h: "maxDim (getSize (setFromObject (gltf_scene g))) = Fin d
        \<and> 1 / 2 ^ 1021 \<le> d \<and> d \<le> 2 ^ 1021"
    then have b: "1 / 2 ^ 1021 \<le> d" "d \<le> 2 ^ 1021" by blast+
    have "(0::real) < 1 / 2 ^ 1021" by simp
    with b(1) have "0 < d" by (rule less_le_trans [rotated])
    with 5 h have s: "scale (fit_model g) = fl (8106479329266893 / 2 ^ 52 / d)" by blast
    from scale_accuracy [OF b] show "\<exists>r. scale (fit_model g) = Fin r \<and> \<bar>r * d - 1.8\<bar> \<le> 1.8 / 2 ^ 52"
      unfolding s .
  qed
  from 1 2 3 4 5 6 7 show ?thesis by blast
qed

theorem model_fitted_on_load_witness:
  "maxDim (getSize (setFromObject (gltf_scene example_gltf))) = Fin 4
   \<and> scale (fit_model example_gltf) = Fin (8106479329266893 / 2 ^ 54)
   \<and> (\<exists>r. scale (fit_model example_gltf) = Fin r \<and> \<bar>r * 4 - 1.8\<bar> \<le> 1.8 / 2 ^ 52)
   \<and> maxDim (getSize (setFromObject (fit_model example_gltf))) = fl 1.8
   \<and> getCenter (setFromObject (fit_model example_gltf)) = (Fin 0, Fin 0, Fin 0)
   \<and> scale (fit_model empty_gltf) = PosInf
   \<and> modelLoaded (onModelLoaded example_gltf (make_icon 2 0 (hd (iconContainers example_page))))"
proof -
  have d: "maxDim (getSize (setFromObject (gltf_scene example_gltf))) = Fin 4"
    by (simp add: example_gltf_def num_eval)
  note t = model_fitted_on_load [of example_gltf "make_icon 2 0 (hd (iconContainers example_page))"]
  from t d have "scale (fit_model example_gltf) = fl (8106479329266893 / 2 ^ 52 / 4)"
    by (metis zero_less_numeral)
  then have s: "scale (fit_model example_gltf) = Fin (8106479329266893 / 2 ^ 54)"
    by (simp add: fl_k round_even_def Let_def)
  have m: "maxDim (getSize (setFromObject (fit_model example_gltf))) = fl 1.8"
    unfolding example_box fl_1_8 by (simp add: num_eval)
  have c: "getCenter (setFromObject (fit_model example_gltf)) = (Fin 0, Fin 0, Fin 0)"
    unfolding example_box by (simp add: num_eval)
  have e: "gltf_vertices empty_gltf = []" by (simp add: empty_gltf_def)
  from model_fitted_on_load [of empty_gltf "make_icon 2 0 (hd (iconContainers example_page))"] e
  have i: "scale (fit_model empty_gltf) = PosInf" by blast
  have "1 / 2 ^ 1021 \<le> (4::real)" "(4::real) \<le> 2 ^ 1021" by simp_all
  with t d have a: "\<exists>r. scale (fit_model example_gltf) = Fin r \<and> \<bar>r * 4 - 1.8\<bar> \<le> 1.8 / 2 ^ 52"
    by blast
  from t d s a m c i show ?thesis by blast
qed

text \<open>
  Three models, each loaded successfully. A model without vertices has largest dimension
  0, is given the scale \<^verbatim>\<open>Infinity\<close> and still has largest dimension 0. The box from
  \<open>(-1, -1, -1)\<close> to \<open>(2, 0, 0)\<close> has largest dimension 3; after the callback its largest
  dimension is \<open>8106479329266892 / 2 ^ 52\<close>, the double below 1.8. The box from \<open>(1, 0, 0)\<close>
  to \<open>(4, 1, 1)\<close> ends with its centre at \<open>x = - 1 / 2 ^ 54\<close>, not at the origin.
\<close>

theorem fitted_size_counterexample:
  "modelLoaded (onModelLoaded empty_gltf (make_icon 2 0 (hd (iconContainers example_page))))
   \<and> scale (fit_model empty_gltf) = PosInf
   \<and> maxDim (getSize (setFromObject (fit_model empty_gltf))) = Fin 0
   \<and> maxDim (getSize (setFromObject (fit_model empty_gltf))) \<noteq> fl 1.8
   \<and> modelLoaded (onModelLoaded skew_gltf (make_icon 2 0 (hd (iconContainers example_page))))
   \<and> maxDim (getSize (setFromObject (gltf_scene skew_gltf))) = Fin 3
   \<and> maxDim (getSize (setFromObject (fit_model skew_gltf))) = Fin (8106479329266892 / 2 ^ 52)
   \<and> fl 1.8 = Fin (8106479329266893 / 2 ^ 52)
   \<and> maxDim (getSize (setFromObject (fit_model skew_gltf))) \<noteq> fl 1.8
   \<and> maxDim (getSize (setFromObject (gltf_scene offset_gltf))) = Fin 3
   \<and> getCenter (setFromObject (fit_model offset_gltf)) = (Fin (- (1 / 2 ^ 54)), Fin 0, Fin 0)
   \<and> getCenter (setFromObject (fit_model offset_gltf)) \<noteq> (Fin 0, Fin 0, Fin 0)"
proof -
  have l: "modelLoaded (onModelLoaded g ic)" for g ic
    by (simp add: onModelLoaded_def)
  have e: "maxDim (getSize (setFromObject (fit_model empty_gltf))) = Fin 0"
    unfolding empty_fit by (simp add: num_eval)
  have s0: "maxDim (getSize (setFromObject (gltf_scene skew_gltf))) = Fin 3"
    by (simp add: skew_gltf_def num_eval)
  have s: "maxDim (getSize (setFromObject (fit_model skew_gltf))) = Fin (8106479329266892 / 2 ^ 52)"
    unfolding skew_box by (simp add: num_eval)
  have o0: "maxDim (getSize (setFromObject (gltf_scene offset_gltf))) = Fin 3"
    by (simp add: offset_gltf_def num_eval)
  have o: "getCenter (setFromObject (fit_model offset_gltf)) = (Fin (- (1 / 2 ^ 54)), Fin 0, Fin 0)"
    unfolding offset_box by (simp add: num_eval)
  show ?thesis
    unfolding e s o fl_1_8 using l s0 o0 by (simp add: empty_fit)
qed

section \<open>Drag and click on one icon\<close>

lemma onDragMove_fields:
  "isDragging (onDragMove x ic) = isDragging ic"
  "pivot (onDragMove x ic) = pivot ic"
  "modelLoaded (onDragMove x ic) = modelLoaded ic"
  "ident (onDragMove x ic) = ident ic"
  by (simp_all add: onDragMove_def Let_def ident_def)

lemmas eval_defs = started_def run_def initSocialIcons_def fresh_env_def make_icon_def
  icon_window_listeners_def icon_listeners_def example_page_def example_gltf_def
  startAnimating_def stopAnimating_def loadModels_def animate_def requestAnimationFrame_def
  cancelAnimationFrame_def getSharedRenderer_def animate_icon_def upd_icon_def onModelLoaded_def
  dispatchEvent_def handlers_for_def onDragStart_def onDragMove_def onDragEnd_def
  touchMoveHandler_def onClick_def Let_def RENDER_SIZE_def ambientLight_def keyLight_def

text \<open>
  Claim C1. \<^verbatim>\<open>onDragMove\<close> compares the movement since the previous pointer-move event
  with 2 pixels and then overwrites \<open>lastX\<close>; the position at which the drag began is not
  kept. A drag that arrives in steps of at most 2 pixels therefore never sets
  \<open>hasDragged\<close>. On a loaded icon: pointer-down at 100, pointer-moves in steps of 2 pixels
  up to 110 and back down to 96, a last one to 95, pointer-up, click. The pointer has gone
  +10 pixels and then -15 pixels, 25 pixels in all, and ends 5 pixels from where it
  started; the drag has turned the icon; yet \<open>hasDragged\<close> is false and the click opens the
  link, although the click handler is to navigate only if the user did not drag. The same
  path delivered as two pointer-move events, to 110 and to 95, sets \<open>hasDragged\<close>, and the
  click opens nothing.
\<close>

theorem slow_drag_navigates:
  "\<exists>s s'. started example_page 0
          [Intersection [True] 0, GltfLoaded 0 example_gltf,
           DomEvent (Container 0) ''mousedown'' 100,
           DomEvent Window ''mousemove'' 102, DomEvent Window ''mousemove'' 104,
           DomEvent Window ''mousemove'' 106, DomEvent Window ''mousemove'' 108,
           DomEvent Window ''mousemove'' 110, DomEvent Window ''mousemove'' 108,
           DomEvent Window ''mousemove'' 106, DomEvent Window ''mousemove'' 104,
           DomEvent Window ''mousemove'' 102, DomEvent Window ''mousemove'' 100,
           DomEvent Window ''mousemove'' 98, DomEvent Window ''mousemove'' 96,
           DomEvent Window ''mousemove'' 95,
           DomEvent Window ''mouseup'' 95,
           DomEvent (Container 0) ''click'' 95] = Some s
      \<and> total_movement 100 [102, 104, 106, 108, 110, 108, 106, 104, 102, 100, 98, 96, 95] = 25
      \<and> net_movement 100 [102, 104, 106, 108, 110, 108, 106, 104, 102, 100, 98, 96, 95] = 5
      \<and> modelLoaded (icons s ! 0)
      \<and> manualRotation (icons s ! 0) < 0
      \<and> \<not> hasDragged (icons s ! 0)
      \<and> last (calls (world s)) = WindowOpen (Some ''https://github.com'') ''_blank''
      \<and> started example_page 0
          [Intersection [True] 0, GltfLoaded 0 example_gltf,
           DomEvent (Container 0) ''mousedown'' 100,
           DomEvent Window ''mousemove'' 110, DomEvent Window ''mousemove'' 95,
           DomEvent Window ''mouseup'' 95,
           DomEvent (Container 0) ''click'' 95] = Some s'
      \<and> hasDragged (icons s' ! 0)
      \<and> WindowOpen (Some ''https://github.com'') ''_blank'' \<notin> set (calls (world s'))"
  by (simp add: eval_defs total_movement_def net_movement_def)

section \<open>Initialisation\<close>

text \<open>
  Claim C9. With no matching container, or with neither a footer ancestor of the first
  container nor the fallback element, \<^verbatim>\<open>initSocialIcons\<close> returns no handle and leaves the
  browser as it was: no canvas attached, no listener registered, no observer watching, no
  renderer constructed.
\<close>

theorem init_aborts_silently:
  assumes "iconContainers p = [] \<or> (closest_footer (hd (iconContainers p)) = None \<and> social_links_3d p = None)"
  shows "initSocialIcons p w = Inl w"
  using assms by (auto simp: initSocialIcons_def split: list.splits option.splits)

theorem init_aborts_silently_witness:
  "initSocialIcons (example_page\<lparr>iconContainers := []\<rparr>) (fresh_env 0) = Inl (fresh_env 0)
   \<and> initSocialIcons
        \<lparr>iconContainers = [\<lparr>dataset_model = None, dataset_link = None, closest_footer = None\<rparr>],
         social_links_3d = None, devicePixelRatio = 1\<rparr> (fresh_env 0) = Inl (fresh_env 0)"
  using init_aborts_silently [of "example_page\<lparr>iconContainers := []\<rparr>" "fresh_env 0"]
    init_aborts_silently
      [of "\<lparr>iconContainers = [\<lparr>dataset_model = None, dataset_link = None, closest_footer = None\<rparr>],
            social_links_3d = None, devicePixelRatio = 1\<rparr>" "fresh_env 0"]
  by simp

section \<open>One frame\<close>

lemma animate_icon_inv:
  "icon_inv ic \<Longrightarrow> animate_icon t ic = (frame_icon t ic, frame_calls t ic, None)"
  by (auto simp: icon_inv_def animate_icon_def frame_icon_def frame_calls_def Let_def)

lemma animate_forEach_inv:
  "list_all icon_inv ics \<Longrightarrow>
     animate_forEach t ics = (map (frame_icon t) ics, concat (map (frame_calls t) ics), None)"
  by (induction ics) (simp_all add: animate_icon_inv)

lemma frame_icon_inv: "icon_inv ic \<Longrightarrow> icon_inv (frame_icon t ic)"
  by (auto simp: icon_inv_def frame_icon_def)

lemma frame_icon_ident: "ident (frame_icon t ic) = ident ic"
  by (simp add: ident_def frame_icon_def)

lemma frame_calls_draw: "c \<in> set (frame_calls t ic) \<Longrightarrow> is_draw c"
  by (auto simp: frame_calls_def split: if_splits)

lemma frames_calls_draw: "c \<in> set (concat (map (frame_calls t) ics)) \<Longrightarrow> is_draw c"
  by (auto dest: frame_calls_draw)

lemma filter_none: "(\<And>c. c \<in> set cs \<Longrightarrow> \<not> P c) \<Longrightarrow> filter P cs = []"
  by (induction cs) auto

lemma frames_not_new: "filter (\<lambda>c. c = NewWebGLRenderer) (concat (map (frame_calls t) ics)) = []"
proof (rule filter_none)
  fix c assume "c \<in> set (concat (map (frame_calls t) ics))"
  then have "is_draw c" by (rule frames_calls_draw)
  then show "\<not> c = NewWebGLRenderer" by (cases c) simp_all
qed

lemma frames_not_load: "filter is_load (concat (map (frame_calls t) ics)) = []"
proof (rule filter_none)
  fix c assume "c \<in> set (concat (map (frame_calls t) ics))"
  then have "is_draw c" by (rule frames_calls_draw)
  then show "\<not> is_load c" by (cases c) simp_all
qed

lemma animate_eq:
  assumes "list_all icon_inv (icons s)" and "isAnimating s"
  shows "animate now s =
     s\<lparr>animFrameId := Some (rafNext (world s)),
       sharedRenderer := Some (case sharedRenderer s of
                                 Some r \<Rightarrow> r
                               | None \<Rightarrow> \<lparr>r_width = RENDER_SIZE, r_height = RENDER_SIZE, r_pixelRatio = pixelRatio s\<rparr>),
       icons := map (frame_icon (now * 0.001)) (icons s),
       world := (world s)
         \<lparr>rafPending := rafPending (world s) @ [rafNext (world s)],
          rafNext := Suc (rafNext (world s)),
          calls := calls (world s)
                   @ (case sharedRenderer s of None \<Rightarrow> [NewWebGLRenderer] | Some r \<Rightarrow> [])
                   @ concat (map (frame_calls (now * 0.001)) (icons s))\<rparr>\<rparr>"
  using assms
  by (cases "sharedRenderer s")
    (simp_all add: animate_def requestAnimationFrame_def getSharedRenderer_def Let_def animate_forEach_inv)

lemma animate_idle: "\<not> isAnimating s \<Longrightarrow> animate now s = s"
  by (simp add: animate_def)

section \<open>The invariants hold in every state the module reaches\<close>

lemma foldl_preserves:
  "P a \<Longrightarrow> (\<And>a x. P a \<Longrightarrow> P (f a x)) \<Longrightarrow> P (foldl f a xs)"
  by (induction xs arbitrary: a) simp_all

lemma ident_fields:
  "ident a = ident b \<Longrightarrow>
     index a = index b \<and> modelPath a = modelPath b \<and> link a = link b \<and> container a = container b
     \<and> canvas2d a = canvas2d b \<and> windowListeners a = windowListeners b"
  by (simp add: ident_def)

lemma map_ident_loads:
  assumes "map ident xs = map ident ys"
  shows "map (\<lambda>ic. LoaderLoad (index ic) (modelPath ic)) xs = map (\<lambda>ic. LoaderLoad (index ic) (modelPath ic)) ys"
proof -
  let ?h = "\<lambda>t. LoaderLoad (fst (snd (snd (snd (snd t))))) (fst (snd (snd (snd t))))"
  have h: "\<And>zs. map ?h (map ident zs) = map (\<lambda>ic. LoaderLoad (index ic) (modelPath ic)) zs"
    by (simp add: ident_def)
  from assms have "map ?h (map ident xs) = map ?h (map ident ys)"
    by (rule arg_cong)
  then show ?thesis unfolding h .
qed

lemma map_update_same:
  "g (f (xs ! k)) = g (xs ! k) \<Longrightarrow> map g (xs[k := f (xs ! k)]) = map g xs"
  by (cases "k < length xs") (simp_all add: map_update list_update_same_conv list_update_beyond)

lemma list_all_update:
  "list_all P xs \<Longrightarrow> P y \<Longrightarrow> list_all P (xs[k := y])"
  by (induction xs arbitrary: k) (auto split: nat.splits)


lemma loop_inv_cong:
  "animFrameId s' = animFrameId s \<Longrightarrow> isAnimating s' = isAnimating s \<Longrightarrow>
   rafPending (world s') = rafPending (world s) \<Longrightarrow> loop_inv s' = loop_inv s"
  by (simp add: loop_inv_def cong: option.case_cong)

lemma renderer_inv_cong:
  "sharedRenderer s' = sharedRenderer s \<Longrightarrow> pixelRatio s' = pixelRatio s \<Longrightarrow>
   constructed (world s') = constructed (world s) \<Longrightarrow> observed (world s') = observed (world s) \<Longrightarrow>
   isAnimating s' = isAnimating s \<Longrightarrow> renderer_inv s' = renderer_inv s"
  by (simp add: renderer_inv_def cong: option.case_cong)

lemma loads_inv_cong:
  assumes "filter is_load (calls (world s')) = filter is_load (calls (world s))"
    and "modelsRequested s' = modelsRequested s" and "map ident (icons s') = map ident (icons s)"
  shows "loads_inv s' = loads_inv s"
  using assms(1,2) map_ident_loads [OF assms(3)] by (simp add: loads_inv_def)

lemma stable_cong:
  "map ident (icons s') = map ident (icons s) \<Longrightarrow> pixelRatio s' = pixelRatio s \<Longrightarrow>
   footer s' = footer s \<Longrightarrow> listeners (world s') = listeners (world s) \<Longrightarrow>
   attached (world s') = attached (world s) \<Longrightarrow> stable s0 s' = stable s0 s"
  by (simp add: stable_def)

text \<open>A step that changes nothing the invariants read, except icons in a way that keeps
  each icon's invariant and its assigned-once fields, keeps the invariants.\<close>

lemma inv_cong:
  assumes "inv s0 s"
    and "animFrameId s' = animFrameId s" "isAnimating s' = isAnimating s"
    and "rafPending (world s') = rafPending (world s)"
    and "sharedRenderer s' = sharedRenderer s" "pixelRatio s' = pixelRatio s"
    and "constructed (world s') = constructed (world s)" "observed (world s') = observed (world s)"
    and "filter is_load (calls (world s')) = filter is_load (calls (world s))"
    and "modelsRequested s' = modelsRequested s" "map ident (icons s') = map ident (icons s)"
    and "footer s' = footer s" "listeners (world s') = listeners (world s)"
    and "attached (world s') = attached (world s)"
    and "list_all icon_inv (icons s')"
  shows "inv s0 s'"
proof -
  have "loop_inv s' = loop_inv s" by (rule loop_inv_cong) (rule assms)+
  moreover have "renderer_inv s' = renderer_inv s" by (rule renderer_inv_cong) (rule assms)+
  moreover have "loads_inv s' = loads_inv s" by (rule loads_inv_cong) (rule assms)+
  moreover have "stable s0 s' = stable s0 s" by (rule stable_cong) (rule assms)+
  ultimately show ?thesis using assms(1,3,10,15) by (simp add: inv_def)
qed

lemma inv_upd_icon:
  assumes "inv s0 s" and "\<And>ic. icon_inv ic \<Longrightarrow> icon_inv (f ic)" and "\<And>ic. ident (f ic) = ident ic"
  shows "inv s0 (upd_icon k f s)"
proof (cases "k < length (icons s)")
  case False
  with assms(1) show ?thesis by (simp add: upd_icon_def)
next
  case True
  have all: "list_all icon_inv (icons s)" using assms(1) by (simp add: inv_def)
  then have "icon_inv (icons s ! k)" using True by (simp add: list_all_length)
  then have 1: "list_all icon_inv ((icons s)[k := f (icons s ! k)])"
    using all assms(2) by (simp add: list_all_update)
  have 2: "map ident ((icons s)[k := f (icons s ! k)]) = map ident (icons s)"
    by (rule map_update_same) (rule assms(3))
  have "inv s0 (s\<lparr>icons := (icons s)[k := f (icons s ! k)]\<rparr>)"
    by (rule inv_cong [OF assms(1)]) (simp_all add: 1 2)
  with True show ?thesis by (simp add: upd_icon_def)
qed

lemma onDragStart_ok: "icon_inv ic \<Longrightarrow> icon_inv (onDragStart x ic)" "ident (onDragStart x ic) = ident ic"
  by (simp_all add: icon_inv_def onDragStart_def ident_def)

lemma onDragMove_ok: "icon_inv ic \<Longrightarrow> icon_inv (onDragMove x ic)"
  by (auto simp: icon_inv_def onDragMove_def Let_def)

lemma onDragEnd_ok: "icon_inv ic \<Longrightarrow> icon_inv (onDragEnd ic)" "ident (onDragEnd ic) = ident ic"
  by (simp_all add: icon_inv_def onDragEnd_def ident_def)

lemma touchMoveHandler_ok:
  "icon_inv ic \<Longrightarrow> icon_inv (touchMoveHandler x ic)" "ident (touchMoveHandler x ic) = ident ic"
  by (simp_all add: touchMoveHandler_def onDragMove_ok onDragMove_fields)

lemma onModelLoaded_ok:
  "icon_inv ic \<Longrightarrow> icon_inv (onModelLoaded g ic)" "ident (onModelLoaded g ic) = ident ic"
  by (simp_all add: icon_inv_def onModelLoaded_def ident_def)

lemma onClick_calls:
  "filter is_load (onClick ic) = []" "filter (\<lambda>c. c = NewWebGLRenderer) (onClick ic) = []"
  "filter is_draw (onClick ic) = []"
  by (simp_all add: onClick_def)

lemma inv_click:
  assumes "inv s0 s"
  shows "inv s0 (s\<lparr>world := (world s)\<lparr>calls := calls (world s) @ onClick ic\<rparr>\<rparr>)"
  by (rule inv_cong [OF assms]) (use assms in \<open>simp_all add: constructed_def onClick_calls inv_def\<close>)

lemma inv_run_handler: "inv s0 s \<Longrightarrow> inv s0 (run_handler x s h)"
proof (cases h)
  case (Handler k kind)
  assume i: "inv s0 s"
  show ?thesis
    unfolding Handler
    by (cases kind)
      (simp_all add: i inv_upd_icon [OF i] onDragStart_ok onDragMove_ok onDragMove_fields onDragEnd_ok
        touchMoveHandler_ok inv_click [OF i])
qed

lemma inv_dispatchEvent: "inv s0 s \<Longrightarrow> inv s0 (dispatchEvent tgt ev x s)"
  unfolding dispatchEvent_def by (rule foldl_preserves) (simp_all add: inv_run_handler)
lemma animate_fields:
  assumes "list_all icon_inv (icons s)" and "isAnimating s"
  shows "animFrameId (animate now s) = Some (rafNext (world s))"
    and "isAnimating (animate now s)"
    and "rafPending (world (animate now s)) = rafPending (world s) @ [rafNext (world s)]"
    and "icons (animate now s) = map (frame_icon (now * 0.001)) (icons s)"
    and "pixelRatio (animate now s) = pixelRatio s"
    and "footer (animate now s) = footer s"
    and "modelsRequested (animate now s) = modelsRequested s"
    and "listeners (world (animate now s)) = listeners (world s)"
    and "attached (world (animate now s)) = attached (world s)"
    and "observed (world (animate now s)) = observed (world s)"
    and "inflight (world (animate now s)) = inflight (world s)"
    and "uncaught (world (animate now s)) = uncaught (world s)"
    and "sharedRenderer (animate now s) =
           Some (case sharedRenderer s of
                   Some r \<Rightarrow> r
                 | None \<Rightarrow> \<lparr>r_width = RENDER_SIZE, r_height = RENDER_SIZE, r_pixelRatio = pixelRatio s\<rparr>)"
    and "calls (world (animate now s)) =
           calls (world s) @ (case sharedRenderer s of None \<Rightarrow> [NewWebGLRenderer] | Some r \<Rightarrow> [])
           @ concat (map (frame_calls (now * 0.001)) (icons s))"
  unfolding animate_eq [OF assms] using assms(2) by simp_all

lemma inv_animate:
  assumes r: "renderer_inv s" and l: "loads_inv s" and a: "list_all icon_inv (icons s)"
    and st: "stable s0 s" and an: "isAnimating s" and p: "rafPending (world s) = []"
    and mr: "modelsRequested s"
  shows "inv s0 (animate now s)"
proof -
  note f = animate_fields [OF a an, of now]
  have 1: "loop_inv (animate now s)"
    by (simp add: loop_inv_def f p)
  have 2: "renderer_inv (animate now s)"
  proof (cases "sharedRenderer s")
    case None
    with r an have "constructed (world s) = 0" by (simp add: renderer_inv_def)
    with None show ?thesis
      by (simp add: renderer_inv_def f constructed_def frames_not_new)
  next
    case (Some r0)
    with r show ?thesis
      by (simp add: renderer_inv_def f constructed_def frames_not_new)
  qed
  have "filter is_load (calls (world (animate now s))) = filter is_load (calls (world s))"
    by (cases "sharedRenderer s") (simp_all add: f frames_not_load)
  then have "loads_inv (animate now s) = loads_inv s"
    by (rule loads_inv_cong) (simp_all add: f frame_icon_ident)
  with l have 3: "loads_inv (animate now s)" by simp
  have 4: "list_all icon_inv (icons (animate now s))"
    using a by (simp add: f list_all_iff frame_icon_inv)
  have "stable s0 (animate now s) = stable s0 s"
    by (rule stable_cong) (simp_all add: f frame_icon_ident)
  with st have 5: "stable s0 (animate now s)" by simp
  from 1 2 3 4 5 mr show ?thesis by (simp add: inv_def f)
qed

lemma loadModels_fields:
  "icons (loadModels s) = icons s" "isAnimating (loadModels s) = isAnimating s"
  "animFrameId (loadModels s) = animFrameId s" "sharedRenderer (loadModels s) = sharedRenderer s"
  "pixelRatio (loadModels s) = pixelRatio s" "footer (loadModels s) = footer s"
  "modelsRequested (loadModels s)"
  "rafPending (world (loadModels s)) = rafPending (world s)"
  "rafNext (world (loadModels s)) = rafNext (world s)"
  "listeners (world (loadModels s)) = listeners (world s)"
  "attached (world (loadModels s)) = attached (world s)"
  "observed (world (loadModels s)) = observed (world s)"
  "uncaught (world (loadModels s)) = uncaught (world s)"
  "constructed (world (loadModels s)) = constructed (world s)"
  "filter is_draw (calls (world (loadModels s))) = filter is_draw (calls (world s))"
  by (simp_all add: loadModels_def constructed_def comp_def)

lemma loads_inv_loadModels: "loads_inv s \<Longrightarrow> loads_inv (loadModels s)"
  by (simp add: loads_inv_def loadModels_def comp_def)

lemma inv_startAnimating:
  assumes i: "inv s0 s" and ob: "observed (world s) \<noteq> []"
  shows "inv s0 (startAnimating now s) \<and> observed (world (startAnimating now s)) \<noteq> []"
proof (cases "isAnimating s")
  case True
  with assms show ?thesis by (simp add: startAnimating_def)
next
  case False
  define s1 where "s1 = s\<lparr>isAnimating := True\<rparr>"
  define s2 where "s2 = loadModels s1"
  have p: "rafPending (world s) = []"
    using i False by (auto simp: inv_def loop_inv_def split: option.splits)
  have "loads_inv s1" using i by (simp add: s1_def inv_def loads_inv_def)
  then have l: "loads_inv s2" unfolding s2_def by (rule loads_inv_loadModels)
  have r: "renderer_inv s2"
    using i ob
    by (cases "sharedRenderer s") (simp_all add: inv_def renderer_inv_def s2_def s1_def loadModels_fields)
  have st: "stable s0 s2"
    using i by (simp add: inv_def stable_def s2_def s1_def loadModels_fields)
  have ic: "list_all icon_inv (icons s2)"
    using i by (simp add: inv_def s2_def s1_def loadModels_fields)
  have an: "isAnimating s2" by (simp add: s2_def s1_def loadModels_fields)
  have p2: "rafPending (world s2) = []" using p by (simp add: s2_def s1_def loadModels_fields)
  have mr: "modelsRequested s2" by (simp add: s2_def loadModels_fields)
  have "inv s0 (animate now s2)"
    by (rule inv_animate [OF r l ic st an p2 mr])
  moreover have "observed (world (animate now s2)) = observed (world s)"
    using animate_fields(10) [OF ic an, of now] by (simp add: s2_def s1_def loadModels_fields)
  ultimately show ?thesis
    using False ob by (simp add: startAnimating_def s2_def s1_def)
qed

lemma stopAnimating_eq:
  "stopAnimating s =
     s\<lparr>isAnimating := False, animFrameId := None,
       world := (world s)\<lparr>rafPending := (case animFrameId s of
                                           None \<Rightarrow> rafPending (world s)
                                         | Some i \<Rightarrow> removeAll i (rafPending (world s)))\<rparr>\<rparr>"
  by (cases "animFrameId s") (simp_all add: stopAnimating_def cancelAnimationFrame_def Let_def)

lemma stopAnimating_fields:
  "icons (stopAnimating s) = icons s" "\<not> isAnimating (stopAnimating s)"
  "animFrameId (stopAnimating s) = None" "sharedRenderer (stopAnimating s) = sharedRenderer s"
  "pixelRatio (stopAnimating s) = pixelRatio s" "footer (stopAnimating s) = footer s"
  "modelsRequested (stopAnimating s) = modelsRequested s"
  "rafNext (world (stopAnimating s)) = rafNext (world s)"
  "listeners (world (stopAnimating s)) = listeners (world s)"
  "attached (world (stopAnimating s)) = attached (world s)"
  "observed (world (stopAnimating s)) = observed (world s)"
  "inflight (world (stopAnimating s)) = inflight (world s)"
  "uncaught (world (stopAnimating s)) = uncaught (world s)"
  "calls (world (stopAnimating s)) = calls (world s)"
  "constructed (world (stopAnimating s)) = constructed (world s)"
  unfolding stopAnimating_eq by (simp_all add: constructed_def)

lemma stopAnimating_pending: "loop_inv s \<Longrightarrow> rafPending (world (stopAnimating s)) = []"
  unfolding stopAnimating_eq by (cases "animFrameId s") (simp_all add: loop_inv_def)

lemma inv_stopAnimating:
  assumes i: "inv s0 s"
  shows "inv s0 (stopAnimating s)"
proof -
  note f = stopAnimating_fields [of s]
  have lp: "loop_inv s" using i by (simp add: inv_def)
  have 1: "loop_inv (stopAnimating s)"
    by (simp add: loop_inv_def f stopAnimating_pending [OF lp])
  have 2: "renderer_inv (stopAnimating s)"
    using i by (cases "sharedRenderer s") (auto simp: inv_def renderer_inv_def f)
  have "loads_inv (stopAnimating s) = loads_inv s"
    by (rule loads_inv_cong) (simp_all add: f)
  moreover have "stable s0 (stopAnimating s) = stable s0 s"
    by (rule stable_cong) (simp_all add: f)
  ultimately show ?thesis using i 1 2 by (simp add: inv_def f)
qed

lemma inv_observerCallback:
  "inv s0 s \<Longrightarrow> observed (world s) \<noteq> [] \<Longrightarrow> inv s0 (observerCallback es now s)"
proof (induction es arbitrary: s)
  case Nil
  then show ?case by simp
next
  case (Cons e es)
  show ?case
  proof (cases e)
    case True
    with Cons.IH [of "startAnimating now s"] inv_startAnimating [OF Cons.prems]
    show ?thesis by simp
  next
    case False
    with Cons.IH [of "stopAnimating s"] inv_stopAnimating [OF Cons.prems(1)] Cons.prems(2)
    show ?thesis by (simp add: stopAnimating_fields)
  qed
qed

lemma inv_frame:
  assumes i: "inv s0 s"
  shows "inv s0 (step (AnimationFrame k now) s)"
proof (cases "k \<in> set (rafPending (world s))")
  case False
  with assms show ?thesis by simp
next
  case True
  define s1 where "s1 = s\<lparr>world := (world s)\<lparr>rafPending := removeAll k (rafPending (world s))\<rparr>\<rparr>"
  from i True have a: "isAnimating s" "rafPending (world s) = [k]"
    by (auto simp: inv_def loop_inv_def split: option.splits)
  have "inv s0 (animate now s1)"
  proof (rule inv_animate)
    have "renderer_inv s1 = renderer_inv s"
      by (rule renderer_inv_cong) (simp_all add: s1_def constructed_def)
    then show "renderer_inv s1" using i by (simp add: inv_def)
    have "loads_inv s1 = loads_inv s"
      by (rule loads_inv_cong) (simp_all add: s1_def)
    then show "loads_inv s1" using i by (simp add: inv_def)
    show "list_all icon_inv (icons s1)" using i by (simp add: s1_def inv_def)
    have "stable s0 s1 = stable s0 s"
      by (rule stable_cong) (simp_all add: s1_def)
    then show "stable s0 s1" using i by (simp add: inv_def)
    show "isAnimating s1" using a by (simp add: s1_def)
    show "rafPending (world s1) = []" using a by (simp add: s1_def)
    show "modelsRequested s1" using i a by (simp add: s1_def inv_def)
  qed
  with True show ?thesis by (simp add: s1_def)
qed

lemma inv_loaded:
  assumes i: "inv s0 s"
  shows "inv s0 (step (GltfLoaded k g) s)"
proof (cases "k \<in> set (inflight (world s))")
  case False
  with assms show ?thesis by simp
next
  case True
  have "inv s0 (s\<lparr>world := (world s)\<lparr>inflight := remove1 k (inflight (world s))\<rparr>\<rparr>)"
    by (rule inv_cong [OF i]) (use i in \<open>simp_all add: constructed_def inv_def\<close>)
  then have "inv s0 (upd_icon k (onModelLoaded g)
      (s\<lparr>world := (world s)\<lparr>inflight := remove1 k (inflight (world s))\<rparr>\<rparr>))"
    by (rule inv_upd_icon) (simp_all add: onModelLoaded_ok)
  with True show ?thesis by simp
qed
subsection \<open>Cleanup\<close>

lemma filter_remove1_other: "\<not> P x \<Longrightarrow> filter P (remove1 x ls) = filter P ls"
  by (induction ls) auto

lemma remove_stashed:
  "distinct ls \<Longrightarrow>
     distinct (foldl (\<lambda>ls (ev, h). remove1 (Window, ev, h) ls) ls xs)
     \<and> set (foldl (\<lambda>ls (ev, h). remove1 (Window, ev, h) ls) ls xs)
         = set ls - (\<lambda>(ev, h). (Window, ev, h)) ` set xs
     \<and> filter (\<lambda>l. fst l \<noteq> Window) (foldl (\<lambda>ls (ev, h). remove1 (Window, ev, h) ls) ls xs)
         = filter (\<lambda>l. fst l \<noteq> Window) ls"
proof (induction xs arbitrary: ls)
  case Nil
  then show ?case by simp
next
  case (Cons x xs)
  obtain ev h where x: "x = (ev, h)" by (cases x)
  have d: "distinct (remove1 (Window, ev, h) ls)" using Cons.prems by simp
  have s: "set (remove1 (Window, ev, h) ls) = set ls - {(Window, ev, h)}"
    using Cons.prems by simp
  have f: "filter (\<lambda>l. fst l \<noteq> Window) (remove1 (Window, ev, h) ls) = filter (\<lambda>l. fst l \<noteq> Window) ls"
    by (rule filter_remove1_other) simp
  from Cons.IH [OF d] s f show ?case
    unfolding x by auto
qed

lemma removeWindowListeners_props:
  "distinct ls \<Longrightarrow>
     distinct (removeWindowListeners ics ls)
     \<and> set (removeWindowListeners ics ls)
         = set ls - (\<Union>ic\<in>set ics. (\<lambda>(ev, h). (Window, ev, h)) ` set (windowListeners ic))
     \<and> filter (\<lambda>l. fst l \<noteq> Window) (removeWindowListeners ics ls) = filter (\<lambda>l. fst l \<noteq> Window) ls"
proof (induction ics arbitrary: ls)
  case Nil
  then show ?case by (simp add: removeWindowListeners_def)
next
  case (Cons ic ics)
  let ?ls1 = "foldl (\<lambda>ls (ev, h). remove1 (Window, ev, h) ls) ls (windowListeners ic)"
  have u: "removeWindowListeners (ic # ics) ls = removeWindowListeners ics ?ls1"
    by (simp add: removeWindowListeners_def)
  from remove_stashed [OF Cons.prems, of "windowListeners ic"]
  have 1: "distinct ?ls1"
    and 2: "set ?ls1 = set ls - (\<lambda>(ev, h). (Window, ev, h)) ` set (windowListeners ic)"
    and 3: "filter (\<lambda>l. fst l \<noteq> Window) ?ls1 = filter (\<lambda>l. fst l \<noteq> Window) ls"
    by blast+
  from Cons.IH [OF 1] 2 3 show ?case
    unfolding u by auto
qed

lemma filter_absent_key: "map_of xs k = None \<Longrightarrow> filter (\<lambda>(c, p). c \<noteq> k) xs = xs"
  by (induction xs) (auto split: if_splits)

lemma filter_keys_twice:
  "filter (\<lambda>(c, p). c \<notin> B) (filter (\<lambda>(c, p). c \<noteq> a) xs) = filter (\<lambda>(c, p). c \<notin> insert a B) xs"
  by (induction xs) auto

lemma dispose_icon_eq:
  "dispose_icon w ic =
     w\<lparr>calls := calls w @ concat (map dispose_object (traverse (scene_graph ic))),
       attached := filter (\<lambda>(c, p). c \<noteq> index ic) (attached w)\<rparr>"
  by (cases "map_of (attached w) (index ic)") (simp_all add: dispose_icon_def Let_def filter_absent_key)

lemma foldl_dispose_icon:
  "foldl dispose_icon w ics =
     w\<lparr>calls := calls w @ concat (map (\<lambda>ic. concat (map dispose_object (traverse (scene_graph ic)))) ics),
       attached := filter (\<lambda>(c, p). c \<notin> index ` set ics) (attached w)\<rparr>"
proof (induction ics arbitrary: w)
  case Nil
  show ?case by simp
next
  case (Cons ic ics)
  have "foldl dispose_icon w (ic # ics) = foldl dispose_icon (dispose_icon w ic) ics"
    by simp
  also have "\<dots> =
      (dispose_icon w ic)
        \<lparr>calls := calls (dispose_icon w ic)
                  @ concat (map (\<lambda>ic. concat (map dispose_object (traverse (scene_graph ic)))) ics),
         attached := filter (\<lambda>(c, p). c \<notin> index ` set ics) (attached (dispose_icon w ic))\<rparr>"
    by (rule Cons.IH)
  also have "\<dots> =
      w\<lparr>calls := calls w
                @ concat (map (\<lambda>ic. concat (map dispose_object (traverse (scene_graph ic)))) (ic # ics)),
        attached := filter (\<lambda>(c, p). c \<notin> index ` set (ic # ics)) (attached w)\<rparr>"
    by (simp add: dispose_icon_eq filter_keys_twice del: filter_filter)
  finally show ?case .
qed

text \<open>The calls \<^verbatim>\<open>dispose\<close> makes to release the resources of the icons' scenes.\<close>

lemma dispose_object_calls:
  "c \<in> set (dispose_object ob) \<Longrightarrow> (\<exists>g. c = GeometryDispose g) \<or> (\<exists>m. c = MaterialDispose m)"
  by (auto simp: dispose_object_def split: option.splits material.splits)

lemma release_calls:
  assumes "c \<in> set (concat (map (\<lambda>ic. concat (map dispose_object (traverse (scene_graph ic)))) ics))"
  shows "\<not> is_load c \<and> \<not> is_draw c \<and> c \<noteq> NewWebGLRenderer"
proof -
  from assms obtain ob where "c \<in> set (dispose_object ob)" by auto
  then have "(\<exists>g. c = GeometryDispose g) \<or> (\<exists>m. c = MaterialDispose m)"
    by (rule dispose_object_calls)
  then show ?thesis by auto
qed

lemma release_filters:
  "filter is_load (concat (map (\<lambda>ic. concat (map dispose_object (traverse (scene_graph ic)))) ics)) = []"
  "filter is_draw (concat (map (\<lambda>ic. concat (map dispose_object (traverse (scene_graph ic)))) ics)) = []"
  "filter (\<lambda>c. c = NewWebGLRenderer)
     (concat (map (\<lambda>ic. concat (map dispose_object (traverse (scene_graph ic)))) ics)) = []"
  by (rule filter_none, use release_calls in blast)+

lemma dispose_eq:
  "dispose s =
     s\<lparr>isAnimating := False, animFrameId := None, sharedRenderer := None,
       world := (world s)
         \<lparr>rafPending := (case animFrameId s of
                           None \<Rightarrow> rafPending (world s)
                         | Some i \<Rightarrow> removeAll i (rafPending (world s))),
          observed := [],
          listeners := removeWindowListeners (icons s) (listeners (world s)),
          calls := calls (world s)
                   @ concat (map (\<lambda>ic. concat (map dispose_object (traverse (scene_graph ic)))) (icons s))
                   @ (case sharedRenderer s of None \<Rightarrow> [] | Some r \<Rightarrow> [RendererDispose]),
          attached := filter (\<lambda>(c, p). c \<notin> index ` set (icons s)) (attached (world s))\<rparr>\<rparr>"
  by (cases "sharedRenderer s")
    (simp_all add: dispose_def Let_def stopAnimating_eq foldl_dispose_icon)

lemma dispose_fields:
  "icons (dispose s) = icons s" "\<not> isAnimating (dispose s)" "animFrameId (dispose s) = None"
  "sharedRenderer (dispose s) = None" "pixelRatio (dispose s) = pixelRatio s"
  "footer (dispose s) = footer s" "modelsRequested (dispose s) = modelsRequested s"
  "observed (world (dispose s)) = []"
  "listeners (world (dispose s)) = removeWindowListeners (icons s) (listeners (world s))"
  "attached (world (dispose s)) = filter (\<lambda>(c, p). c \<notin> index ` set (icons s)) (attached (world s))"
  "rafPending (world (dispose s)) =
     (case animFrameId s of None \<Rightarrow> rafPending (world s) | Some i \<Rightarrow> removeAll i (rafPending (world s)))"
  "calls (world (dispose s)) =
     calls (world s)
     @ concat (map (\<lambda>ic. concat (map dispose_object (traverse (scene_graph ic)))) (icons s))
     @ (case sharedRenderer s of None \<Rightarrow> [] | Some r \<Rightarrow> [RendererDispose])"
  "inflight (world (dispose s)) = inflight (world s)"
  "uncaught (world (dispose s)) = uncaught (world s)"
  unfolding dispose_eq by simp_all

lemma dispose_pending: "loop_inv s \<Longrightarrow> rafPending (world (dispose s)) = []"
  by (cases "animFrameId s") (simp_all add: dispose_fields loop_inv_def)

lemma dispose_call_filters:
  "filter is_load (calls (world (dispose s))) = filter is_load (calls (world s))"
  "filter is_draw (calls (world (dispose s))) = filter is_draw (calls (world s))"
  "constructed (world (dispose s)) = constructed (world s)"
  by (cases "sharedRenderer s"; simp add: dispose_fields release_filters constructed_def)+

lemma inv_dispose:
  assumes i: "inv s0 s"
  shows "inv s0 (dispose s)"
proof -
  note f = dispose_fields [of s]
  have lp: "loop_inv s" using i by (simp add: inv_def)
  have 1: "loop_inv (dispose s)"
    by (simp add: loop_inv_def f(2,3) dispose_pending [OF lp])
  have 2: "renderer_inv (dispose s)"
    using i
    by (cases "sharedRenderer s")
      (auto simp: inv_def renderer_inv_def f(2,4,8) dispose_call_filters)
  have "loads_inv (dispose s) = loads_inv s"
    by (rule loads_inv_cong) (simp_all add: dispose_call_filters f(1,7))
  with i have 3: "loads_inv (dispose s)" by (simp add: inv_def)
  have 4: "list_all icon_inv (icons (dispose s))" using i by (simp add: inv_def f)
  have st: "stable s0 s" using i by (simp add: inv_def)
  then have d: "distinct (listeners (world s))" by (simp add: stable_def)
  note rp = removeWindowListeners_props [OF d, of "icons s"]
  have 5: "stable s0 (dispose s)"
    unfolding stable_def f
    using st rp by (auto simp: stable_def)
  from 1 2 3 4 5 show ?thesis by (simp add: inv_def f(2))
qed

subsection \<open>Every event\<close>

lemma inv_step: "inv s0 s \<Longrightarrow> inv s0 (step e s)"
proof (cases e)
  case (DomEvent tgt ev x)
  assume "inv s0 s"
  then show ?thesis unfolding DomEvent by (simp add: inv_dispatchEvent)
next
  case (Intersection es now)
  assume "inv s0 s"
  then show ?thesis unfolding Intersection by (simp add: inv_observerCallback)
next
  case (AnimationFrame k now)
  assume "inv s0 s"
  then show ?thesis unfolding AnimationFrame by (rule inv_frame)
next
  case (GltfLoaded k g)
  assume "inv s0 s"
  then show ?thesis unfolding GltfLoaded by (rule inv_loaded)
next
  case DisposeCall
  assume "inv s0 s"
  then show ?thesis unfolding DisposeCall by (simp add: inv_dispose)
qed

lemma inv_run: "inv s0 s \<Longrightarrow> inv s0 (run evs s)"
  unfolding run_def by (rule foldl_preserves) (simp_all add: inv_step)

subsection \<open>The state after initialisation\<close>

lemma icon_listeners_handler: "(t, ev, h) \<in> set (icon_listeners k) \<Longrightarrow> \<exists>kind. h = Handler k kind"
  by (auto simp: icon_listeners_def)

lemma distinct_icon_listeners: "distinct (icon_listeners k)"
  by (simp add: icon_listeners_def)

lemma distinct_all_listeners: "distinct (concat (map icon_listeners [0..<n]))"
proof (induction n)
  case 0
  show ?case by simp
next
  case (Suc n)
  have "set (concat (map icon_listeners [0..<n])) \<inter> set (icon_listeners n) = {}"
  proof (rule ccontr)
    assume "set (concat (map icon_listeners [0..<n])) \<inter> set (icon_listeners n) \<noteq> {}"
    then obtain l k where l: "l \<in> set (icon_listeners k)" "k < n" "l \<in> set (icon_listeners n)"
      by auto
    obtain t ev h where "l = (t, ev, h)" by (cases l)
    with l icon_listeners_handler [of t ev h k] icon_listeners_handler [of t ev h n]
    show False by auto
  qed
  with Suc show ?case by (simp add: distinct_icon_listeners)
qed

lemma init_Inr:
  assumes "initSocialIcons p w = Inr s0"
  shows "icons s0 =
           map (\<lambda>(k, c). (make_icon (min (devicePixelRatio p) 2) k c)\<lparr>windowListeners := icon_window_listeners k\<rparr>)
             (enumerate 0 (iconContainers p))"
    and "pixelRatio s0 = min (devicePixelRatio p) 2"
    and "sharedRenderer s0 = None" and "\<not> modelsRequested s0"
    and "animFrameId s0 = None" and "\<not> isAnimating s0"
    and "world s0 =
           w\<lparr>attached := attached w @ map (\<lambda>k. (k, k)) [0..<length (iconContainers p)],
             listeners := listeners w @ concat (map icon_listeners [0..<length (iconContainers p)]),
             observed := observed w @ [footer s0]\<rparr>"
    and "iconContainers p \<noteq> []"
  using assms
  by (auto simp: initSocialIcons_def Let_def make_icon_def case_prod_unfold
      split: list.splits option.splits)

lemma init_icons:
  assumes "initSocialIcons p w = Inr s0"
  shows "length (icons s0) = length (iconContainers p)"
    and "map index (icons s0) = [0..<length (iconContainers p)]"
    and "list_all icon_inv (icons s0)"
proof -
  note i = init_Inr(1) [OF assms]
  show "length (icons s0) = length (iconContainers p)" by (simp add: i)
  have "map index (icons s0) = map fst (enumerate 0 (iconContainers p))"
    by (simp add: i make_icon_def case_prod_unfold comp_def)
  then show "map index (icons s0) = [0..<length (iconContainers p)]"
    by (simp only: map_fst_enumerate add_0)
  show "list_all icon_inv (icons s0)"
    by (simp add: i list_all_iff icon_inv_def make_icon_def case_prod_unfold)
qed

lemma inv_init:
  assumes "initSocialIcons p (fresh_env n) = Inr s0"
  shows "inv s0 s0"
proof -
  note i = init_Inr [OF assms]
  have "loop_inv s0" by (simp add: loop_inv_def i fresh_env_def)
  moreover have "renderer_inv s0" by (simp add: renderer_inv_def i constructed_def fresh_env_def)
  moreover have "loads_inv s0" by (simp add: loads_inv_def i(4,7) fresh_env_def)
  moreover have "stable s0 s0"
    by (simp add: stable_def i(7) fresh_env_def distinct_all_listeners)
  ultimately show ?thesis using init_icons(3) [OF assms] by (simp add: inv_def i(6))
qed

lemma started_inv:
  assumes "started p n evs = Some s"
  obtains s0 where "initSocialIcons p (fresh_env n) = Inr s0" and "s = run evs s0" and "inv s0 s"
proof (cases "initSocialIcons p (fresh_env n)")
  case (Inl w)
  with assms show ?thesis by (simp add: started_def)
next
  case (Inr s0)
  with assms have "s = run evs s0" by (simp add: started_def)
  moreover have "inv s0 (run evs s0)" by (rule inv_run) (rule inv_init [OF Inr])
  ultimately show ?thesis using that Inr by blast
qed

section \<open>Facts about every state the module reaches\<close>

lemma started_Some: "iconContainers p \<noteq> [] \<Longrightarrow> closest_footer (hd (iconContainers p)) \<noteq> None \<Longrightarrow>
    \<exists>s. started p n evs = Some s"
  by (auto simp: started_def initSocialIcons_def Let_def split: list.splits option.splits)

lemma started_example: "\<exists>s. started example_page n evs = Some s"
  by (rule started_Some) (simp_all add: example_page_def)

lemma reached_icons:
  assumes "initSocialIcons p w = Inr s0" and "inv s0 s"
  shows "length (icons s) = length (iconContainers p)"
    and "k < length (icons s) \<Longrightarrow> index (icons s ! k) = k"
    and "k < length (icons s) \<Longrightarrow> modelPath (icons s ! k) = dataset_model (iconContainers p ! k)"
    and "k < length (icons s) \<Longrightarrow> link (icons s ! k) = dataset_link (iconContainers p ! k)"
    and "k < length (icons s) \<Longrightarrow> windowListeners (icons s ! k) = icon_window_listeners k"
    and "index ` set (icons s) = {0..<length (iconContainers p)}"
    and "pixelRatio s = min (devicePixelRatio p) 2"
proof -
  have m: "map ident (icons s) = map ident (icons s0)"
    using assms(2) by (simp add: inv_def stable_def)
  then have "length (map ident (icons s)) = length (map ident (icons s0))" by simp
  then have l: "length (icons s) = length (icons s0)" by simp
  then show len: "length (icons s) = length (iconContainers p)"
    by (simp add: init_icons(1) [OF assms(1)])
  have id: "ident (icons s ! k) = ident (icons s0 ! k)" if "k < length (icons s)" for k
  proof -
    have "map ident (icons s) ! k = map ident (icons s0) ! k" by (simp add: m)
    with that l show ?thesis by simp
  qed
  have s0k: "icons s0 ! k =
      (make_icon (min (devicePixelRatio p) 2) k (iconContainers p ! k))\<lparr>windowListeners := icon_window_listeners k\<rparr>"
    if "k < length (icons s)" for k
    using that len by (simp add: init_Inr(1) [OF assms(1)] nth_enumerate_eq)
  show "k < length (icons s) \<Longrightarrow> index (icons s ! k) = k"
    using ident_fields [OF id [of k]] s0k [of k] by (simp add: make_icon_def)
  show "k < length (icons s) \<Longrightarrow> modelPath (icons s ! k) = dataset_model (iconContainers p ! k)"
    using ident_fields [OF id [of k]] s0k [of k] by (simp add: make_icon_def)
  show "k < length (icons s) \<Longrightarrow> link (icons s ! k) = dataset_link (iconContainers p ! k)"
    using ident_fields [OF id [of k]] s0k [of k] by (simp add: make_icon_def)
  show "k < length (icons s) \<Longrightarrow> windowListeners (icons s ! k) = icon_window_listeners k"
    using ident_fields [OF id [of k]] s0k [of k] by (simp add: make_icon_def)
  have "map index (icons s) = map index (icons s0)"
  proof (rule nth_equalityI)
    show "length (map index (icons s)) = length (map index (icons s0))" by (simp add: l)
    fix j assume "j < length (map index (icons s))"
    then have j: "j < length (icons s)" by simp
    with ident_fields [OF id [OF j]] l show "map index (icons s) ! j = map index (icons s0) ! j"
      by simp
  qed
  then have "set (map index (icons s)) = set [0..<length (iconContainers p)]"
    by (simp add: init_icons(2) [OF assms(1)])
  then show "index ` set (icons s) = {0..<length (iconContainers p)}" by simp
  show "pixelRatio s = min (devicePixelRatio p) 2"
    using assms(2) by (simp add: inv_def stable_def init_Inr(2) [OF assms(1)])
qed

text \<open>
  Claim C7. In every state the module reaches, at most one \<^verbatim>\<open>WebGLRenderer\<close> has been
  constructed; \<^verbatim>\<open>getSharedRenderer\<close> returns a renderer of size 80 by 80 with pixel ratio
  \<open>min devicePixelRatio 2\<close>; when a renderer is held it returns that one and changes
  nothing, otherwise it constructs one; and a second call returns the same renderer
  again without constructing anything.
\<close>

theorem shared_renderer_singleton:
  assumes "started p n evs = Some s"
  shows "constructed (world s) \<le> 1
       \<and> fst (getSharedRenderer s) = \<lparr>r_width = 80, r_height = 80, r_pixelRatio = min (devicePixelRatio p) 2\<rparr>
       \<and> (\<forall>r. sharedRenderer s = Some r \<longrightarrow> getSharedRenderer s = (r, s))
       \<and> (sharedRenderer s = None \<longrightarrow>
            calls (world (snd (getSharedRenderer s))) = calls (world s) @ [NewWebGLRenderer])
       \<and> sharedRenderer (snd (getSharedRenderer s)) = Some (fst (getSharedRenderer s))
       \<and> getSharedRenderer (snd (getSharedRenderer s)) = (fst (getSharedRenderer s), snd (getSharedRenderer s))"
proof -
  from assms obtain s0 where s0: "initSocialIcons p (fresh_env n) = Inr s0" and i: "inv s0 s"
    by (rule started_inv)
  have pr: "pixelRatio s = min (devicePixelRatio p) 2" by (rule reached_icons(7) [OF s0 i])
  have r: "renderer_inv s" using i by (simp add: inv_def)
  show ?thesis
  proof (cases "sharedRenderer s")
    case None
    with r pr show ?thesis
      by (auto simp: renderer_inv_def getSharedRenderer_def Let_def RENDER_SIZE_def)
  next
    case (Some r0)
    with r pr show ?thesis
      by (simp add: renderer_inv_def getSharedRenderer_def RENDER_SIZE_def)
  qed
qed

theorem shared_renderer_singleton_witness:
  "\<exists>s. started example_page 0 [Intersection [True] 0, AnimationFrame 0 16, DisposeCall] = Some s
      \<and> constructed (world s) \<le> 1
      \<and> fst (getSharedRenderer s) = \<lparr>r_width = 80, r_height = 80, r_pixelRatio = 2\<rparr>"
proof -
  obtain s where s: "started example_page 0 [Intersection [True] 0, AnimationFrame 0 16, DisposeCall] = Some s"
    using started_example by blast
  from shared_renderer_singleton [OF s] s show ?thesis
    by (simp add: example_page_def)
qed
text \<open>
  Claim C2. Whatever has happened since initialisation, after any positive number of
  further calls of \<^verbatim>\<open>loadModels\<close> the load requests issued so far are exactly one per
  icon, for the icons' model paths in order; the one-shot flag is set, and a second call
  changes nothing.
\<close>

theorem loadModels_idempotent:
  assumes "started p n evs = Some s" and "0 < m"
  shows "filter is_load (calls (world ((loadModels ^^ m) s)))
           = map (\<lambda>(k, c). LoaderLoad k (dataset_model c)) (enumerate 0 (iconContainers p))
       \<and> modelsRequested ((loadModels ^^ m) s)
       \<and> (loadModels ^^ m) s = loadModels s
       \<and> loadModels (loadModels s) = loadModels s"
proof -
  from assms(1) obtain s0 where s0: "initSocialIcons p (fresh_env n) = Inr s0" and i: "inv s0 s"
    by (rule started_inv)
  have idem: "loadModels (loadModels t) = loadModels t" for t
    by (simp add: loadModels_def)
  have pow: "(loadModels ^^ Suc j) s = loadModels s" for j
    by (induction j) (simp_all add: idem)
  from assms(2) obtain j where m: "m = Suc j" by (cases m) simp_all
  have "loads_inv (loadModels s)"
    using i by (simp add: inv_def loads_inv_loadModels)
  then have 1: "filter is_load (calls (world (loadModels s)))
      = map (\<lambda>ic. LoaderLoad (index ic) (modelPath ic)) (icons s)"
    by (simp add: loads_inv_def loadModels_fields)
  have 2: "map (\<lambda>ic. LoaderLoad (index ic) (modelPath ic)) (icons s)
      = map (\<lambda>(k, c). LoaderLoad k (dataset_model c)) (enumerate 0 (iconContainers p))"
  proof (rule nth_equalityI)
    show "length (map (\<lambda>ic. LoaderLoad (index ic) (modelPath ic)) (icons s))
        = length (map (\<lambda>(k, c). LoaderLoad k (dataset_model c)) (enumerate 0 (iconContainers p)))"
      by (simp add: reached_icons(1) [OF s0 i])
    fix k assume "k < length (map (\<lambda>ic. LoaderLoad (index ic) (modelPath ic)) (icons s))"
    then have k: "k < length (icons s)" by simp
    then have "k < length (iconContainers p)" by (simp add: reached_icons(1) [OF s0 i])
    with k reached_icons(2,3) [OF s0 i k]
    show "map (\<lambda>ic. LoaderLoad (index ic) (modelPath ic)) (icons s) ! k
        = map (\<lambda>(k, c). LoaderLoad k (dataset_model c)) (enumerate 0 (iconContainers p)) ! k"
      by (simp add: nth_enumerate_eq)
  qed
  show ?thesis
    unfolding m pow using 1 2 idem by (simp add: loadModels_fields)
qed

theorem loadModels_idempotent_witness:
  "\<exists>s. started example_page 0 [Intersection [True] 0, Intersection [False] 5, Intersection [True] 9] = Some s
      \<and> filter is_load (calls (world ((loadModels ^^ 3) s)))
          = [LoaderLoad 0 (Some ''models/github.glb''), LoaderLoad 1 (Some ''models/mail.glb'')]"
proof -
  obtain s where s: "started example_page 0 [Intersection [True] 0, Intersection [False] 5, Intersection [True] 9] = Some s"
    using started_example by blast
  have "(0::nat) < 3" by simp
  from loadModels_idempotent [OF s this]
  have "filter is_load (calls (world ((loadModels ^^ 3) s)))
      = map (\<lambda>(k, c). LoaderLoad k (dataset_model c)) (enumerate 0 (iconContainers example_page))"
    by (rule conjunct1)
  also have "\<dots> = [LoaderLoad 0 (Some ''models/github.glb''), LoaderLoad 1 (Some ''models/mail.glb'')]"
    by (simp add: example_page_def)
  finally show ?thesis using s by blast
qed

text \<open>
  Claim C6. When the browser runs the pending frame callback at clock value \<open>now\<close>
  (milliseconds; \<open>t\<close> is \<open>now\<close> in seconds), every icon is treated as \<open>frame_icon\<close> says and
  the calls made are, icon after icon, those of \<open>frame_calls\<close>. For the icon at position
  \<open>k\<close>: if its model is not loaded it is left as it is and no call is made for it; if it
  is loaded and being dragged the pivot's yaw becomes its \<open>manualRotation\<close>, which keeps
  its value; if it is loaded and not dragged \<open>manualRotation\<close> becomes \<open>t + k * 0.5\<close> and so
  does the yaw; and for a loaded icon the scene is rendered with the pivot so turned,
  the 2D canvas is cleared and the renderer's image is drawn onto it. No exception
  escapes the frame.
\<close>

theorem frame_per_icon:
  assumes "started p n evs = Some s" and "i \<in> set (rafPending (world s))" and "k < length (icons s)"
  shows "icons (step (AnimationFrame i now) s) = map (frame_icon (now * 0.001)) (icons s)
       \<and> calls (world (step (AnimationFrame i now) s))
           = calls (world s) @ (case sharedRenderer s of None \<Rightarrow> [NewWebGLRenderer] | Some r \<Rightarrow> [])
             @ concat (map (frame_calls (now * 0.001)) (icons s))
       \<and> uncaught (world (step (AnimationFrame i now) s)) = uncaught (world s)
       \<and> (\<not> modelLoaded (icons s ! k) \<longrightarrow>
             icons (step (AnimationFrame i now) s) ! k = icons s ! k
             \<and> frame_calls (now * 0.001) (icons s ! k) = [])
       \<and> (modelLoaded (icons s ! k) \<and> isDragging (icons s ! k) \<longrightarrow>
             manualRotation (icons (step (AnimationFrame i now) s) ! k) = manualRotation (icons s ! k)
             \<and> map_option rotation_y (pivot (icons (step (AnimationFrame i now) s) ! k))
                 = Some (manualRotation (icons s ! k)))
       \<and> (modelLoaded (icons s ! k) \<and> \<not> isDragging (icons s ! k) \<longrightarrow>
             manualRotation (icons (step (AnimationFrame i now) s) ! k) = now * 0.001 + real k * 0.5
             \<and> map_option rotation_y (pivot (icons (step (AnimationFrame i now) s) ! k))
                 = Some (now * 0.001 + real k * 0.5))
       \<and> (modelLoaded (icons s ! k) \<longrightarrow>
             frame_calls (now * 0.001) (icons s ! k)
               = [RendererRender k (scene (icons s ! k)) (pivot (icons (step (AnimationFrame i now) s) ! k)),
                  ClearRect k (width (canvas2d (icons s ! k))) (height (canvas2d (icons s ! k))),
                  DrawImage k (width (canvas2d (icons s ! k))) (height (canvas2d (icons s ! k)))])"
proof -
  from assms(1) obtain s0 where s0: "initSocialIcons p (fresh_env n) = Inr s0" and inv: "inv s0 s"
    by (rule started_inv)
  define s1 where "s1 = s\<lparr>world := (world s)\<lparr>rafPending := removeAll i (rafPending (world s))\<rparr>\<rparr>"
  have st: "step (AnimationFrame i now) s = animate now s1"
    using assms(2) by (simp add: s1_def)
  have an: "isAnimating s1"
    using inv assms(2) by (auto simp: inv_def loop_inv_def s1_def split: option.splits)
  have all: "list_all icon_inv (icons s1)" using inv by (simp add: inv_def s1_def)
  note f = animate_fields [OF all an, of now]
  have ok: "icon_inv (icons s ! k)"
    using all assms(3) by (simp add: s1_def list_all_length)
  have ix: "index (icons s ! k) = k" by (rule reached_icons(2) [OF s0 inv assms(3)])
  have 1: "icons (step (AnimationFrame i now) s) = map (frame_icon (now * 0.001)) (icons s)"
    unfolding st f by (simp add: s1_def)
  have 2: "calls (world (step (AnimationFrame i now) s))
      = calls (world s) @ (case sharedRenderer s of None \<Rightarrow> [NewWebGLRenderer] | Some r \<Rightarrow> [])
        @ concat (map (frame_calls (now * 0.001)) (icons s))"
    unfolding st f by (simp add: s1_def)
  have 3: "uncaught (world (step (AnimationFrame i now) s)) = uncaught (world s)"
    unfolding st f by (simp add: s1_def)
  have k: "icons (step (AnimationFrame i now) s) ! k = frame_icon (now * 0.001) (icons s ! k)"
    unfolding 1 using assms(3) by simp
  have 4: "\<not> modelLoaded (icons s ! k) \<longrightarrow>
      icons (step (AnimationFrame i now) s) ! k = icons s ! k \<and> frame_calls (now * 0.001) (icons s ! k) = []"
    unfolding k by (simp add: frame_icon_def frame_calls_def)
  have 5: "modelLoaded (icons s ! k) \<and> isDragging (icons s ! k) \<longrightarrow>
      manualRotation (icons (step (AnimationFrame i now) s) ! k) = manualRotation (icons s ! k)
      \<and> map_option rotation_y (pivot (icons (step (AnimationFrame i now) s) ! k))
          = Some (manualRotation (icons s ! k))"
    unfolding k using ok by (auto simp: frame_icon_def icon_inv_def)
  have 6: "modelLoaded (icons s ! k) \<and> \<not> isDragging (icons s ! k) \<longrightarrow>
      manualRotation (icons (step (AnimationFrame i now) s) ! k) = now * 0.001 + real k * 0.5
      \<and> map_option rotation_y (pivot (icons (step (AnimationFrame i now) s) ! k))
          = Some (now * 0.001 + real k * 0.5)"
    unfolding k using ok ix by (auto simp: frame_icon_def icon_inv_def)
  have 7: "modelLoaded (icons s ! k) \<longrightarrow>
      frame_calls (now * 0.001) (icons s ! k)
        = [RendererRender k (scene (icons s ! k)) (pivot (icons (step (AnimationFrame i now) s) ! k)),
           ClearRect k (width (canvas2d (icons s ! k))) (height (canvas2d (icons s ! k))),
           DrawImage k (width (canvas2d (icons s ! k))) (height (canvas2d (icons s ! k)))]"
    unfolding k using ix by (simp add: frame_calls_def)
  from 1 2 3 4 5 6 7 show ?thesis by blast
qed
theorem frame_per_icon_witness:
  "\<exists>s. started example_page 0 [Intersection [True] 0, GltfLoaded 0 example_gltf] = Some s
      \<and> 0 \<in> set (rafPending (world s))
      \<and> modelLoaded (icons s ! 0) \<and> \<not> isDragging (icons s ! 0)
      \<and> manualRotation (icons (step (AnimationFrame 0 2000) s) ! 0) = 2
      \<and> map_option rotation_y (pivot (icons (step (AnimationFrame 0 2000) s) ! 0)) = Some 2
      \<and> \<not> modelLoaded (icons s ! 1)
      \<and> icons (step (AnimationFrame 0 2000) s) ! 1 = icons s ! 1"
proof -
  obtain s where s: "started example_page 0 [Intersection [True] 0, GltfLoaded 0 example_gltf] = Some s"
    using started_example by blast
  have e: "0 \<in> set (rafPending (world s))" "length (icons s) = 2"
    "modelLoaded (icons s ! 0)" "\<not> isDragging (icons s ! 0)" "\<not> modelLoaded (icons s ! 1)"
    using s by (auto simp: eval_defs)
  have k0: "0 < length (icons s)" and k1: "1 < length (icons s)" using e(2) by simp_all
  from frame_per_icon [OF s e(1) k0, of 2000] e(3,4)
  have "manualRotation (icons (step (AnimationFrame 0 2000) s) ! 0) = 2000 * 0.001 + real (0::nat) * 0.5
      \<and> map_option rotation_y (pivot (icons (step (AnimationFrame 0 2000) s) ! 0))
          = Some (2000 * 0.001 + real (0::nat) * 0.5)"
    by blast
  then have a: "manualRotation (icons (step (AnimationFrame 0 2000) s) ! 0) = 2
      \<and> map_option rotation_y (pivot (icons (step (AnimationFrame 0 2000) s) ! 0)) = Some 2"
    by simp
  from frame_per_icon [OF s e(1) k1, of 2000] e(5)
  have b: "icons (step (AnimationFrame 0 2000) s) ! 1 = icons s ! 1"
    by blast
  from s e a b show ?thesis by blast
qed

section \<open>The visibility gate\<close>

lemma run_Cons: "run (e # es) s = run es (step e s)"
  by (simp add: run_def)













section \<open>Listeners in reachable states\<close>

lemma foldl_preserves_set:
  "P a \<Longrightarrow> (\<And>a x. x \<in> set xs \<Longrightarrow> P a \<Longrightarrow> P (f a x)) \<Longrightarrow> P (foldl f a xs)"
  by (induction xs arbitrary: a) simp_all

lemma handlers_for_append: "handlers_for t ev (xs @ ys) = handlers_for t ev xs @ handlers_for t ev ys"
  by (simp add: handlers_for_def)

lemma handlers_for_container:
  "handlers_for (Container k) ev ls = handlers_for (Container k) ev (filter (\<lambda>l. fst l \<noteq> Window) ls)"
  by (induction ls) (auto simp: handlers_for_def)

lemma handlers_for_other_icon: "j \<noteq> k \<Longrightarrow> handlers_for (Container k) ev (icon_listeners j) = []"
  by (simp add: handlers_for_def icon_listeners_def)

lemma handlers_for_all_icons:
  "handlers_for (Container k) ev (concat (map icon_listeners [0..<n]))
     = (if k < n then handlers_for (Container k) ev (icon_listeners k) else [])"
proof (induction n)
  case 0
  show ?case by (simp add: handlers_for_def)
next
  case (Suc n)
  show ?case
  proof (cases "k = n")
    case True
    with Suc show ?thesis by (simp add: handlers_for_append)
  next
    case False
    then have "handlers_for (Container k) ev (icon_listeners n) = []"
      by (simp add: handlers_for_other_icon)
    with Suc False show ?thesis by (auto simp: handlers_for_append)
  qed
qed

lemma init_listeners:
  assumes "initSocialIcons p (fresh_env n) = Inr s0"
  shows "listeners (world s0) = concat (map icon_listeners [0..<length (iconContainers p)])"
    and "attached (world s0) = map (\<lambda>k. (k, k)) [0..<length (iconContainers p)]"
  by (simp_all add: init_Inr(7) [OF assms] fresh_env_def)

lemma reached_container_handlers:
  assumes "initSocialIcons p (fresh_env n) = Inr s0" and "inv s0 s" and "k < length (icons s)"
  shows "handlers_for (Container k) ev (listeners (world s)) = handlers_for (Container k) ev (icon_listeners k)"
proof -
  have "filter (\<lambda>l. fst l \<noteq> Window) (listeners (world s)) = filter (\<lambda>l. fst l \<noteq> Window) (listeners (world s0))"
    using assms(2) by (simp add: inv_def stable_def)
  then have "handlers_for (Container k) ev (listeners (world s))
      = handlers_for (Container k) ev (listeners (world s0))"
    using handlers_for_container [of k ev "listeners (world s)"]
      handlers_for_container [of k ev "listeners (world s0)"] by simp
  also have "\<dots> = handlers_for (Container k) ev (icon_listeners k)"
    using assms(3) reached_icons(1) [OF assms(1,2)]
    by (simp add: init_listeners(1) [OF assms(1)] handlers_for_all_icons)
  finally show ?thesis .
qed

lemma reached_window_handlers:
  assumes "initSocialIcons p (fresh_env n) = Inr s0" and "inv s0 s"
    and "h \<in> set (handlers_for Window ev (listeners (world s)))"
  shows "\<exists>j<length (icons s). (Window, ev, h) \<in> set (icon_listeners j)"
proof -
  from assms(3) have "(Window, ev, h) \<in> set (listeners (world s))"
    by (auto simp: handlers_for_def)
  moreover have "set (listeners (world s)) \<subseteq> set (listeners (world s0))"
    using assms(2) by (simp add: inv_def stable_def)
  ultimately have "(Window, ev, h) \<in> set (concat (map icon_listeners [0..<length (iconContainers p)]))"
    using init_listeners(1) [OF assms(1)] by auto
  then show ?thesis using reached_icons(1) [OF assms(1,2)] by auto
qed

lemma window_listener_kinds:
  "(Window, ''mousemove'', h) \<in> set (icon_listeners j) \<Longrightarrow> h = Handler j OnMouseMove"
  "(Window, ''touchmove'', h) \<in> set (icon_listeners j) \<Longrightarrow> h = Handler j OnTouchMove"
  "(Window, ev, h) \<in> set (icon_listeners j) \<Longrightarrow> (ev, h) \<in> set (icon_window_listeners j)"
  by (auto simp: icon_listeners_def icon_window_listeners_def)

lemma click_step:
  assumes "initSocialIcons p (fresh_env n) = Inr s0" and "inv s0 s" and "k < length (icons s)"
  shows "step (DomEvent (Container k) ''click'' x) s
     = s\<lparr>world := (world s)\<lparr>calls := calls (world s) @ onClick (icons s ! k)\<rparr>\<rparr>"
proof -
  have "handlers_for (Container k) ''click'' (listeners (world s)) = [Handler k OnClick]"
    unfolding reached_container_handlers [OF assms]
    by (simp add: handlers_for_def icon_listeners_def)
  then show ?thesis using assms(3) by (simp add: dispatchEvent_def)
qed

lemma mousedown_step:
  assumes "initSocialIcons p (fresh_env n) = Inr s0" and "inv s0 s" and "k < length (icons s)"
  shows "step (DomEvent (Container k) ''mousedown'' x) s = upd_icon k (onDragStart x) s"
proof -
  have "handlers_for (Container k) ''mousedown'' (listeners (world s)) = [Handler k OnMouseDown]"
    unfolding reached_container_handlers [OF assms]
    by (simp add: handlers_for_def icon_listeners_def)
  then show ?thesis by (simp add: dispatchEvent_def)
qed

lemma run_append: "run (xs @ ys) s = run ys (run xs s)"
  by (simp add: run_def)

lemma started_run: "started p n evs = Some s \<Longrightarrow> started p n (evs @ es) = Some (run es s)"
  by (auto simp: started_def run_append split: sum.splits)

text \<open>
  Claim C3. A click on the container of the icon at position \<open>k\<close> does nothing at all when
  that icon's \<open>hasDragged\<close> is true, and otherwise makes exactly one call,
  \<^verbatim>\<open>window.open(link, '_blank')\<close> with the icon's \<^verbatim>\<open>data-link\<close>; in both cases every icon and
  the rest of the module's state stay as they were.
\<close>

theorem click_navigates_unless_dragged:
  assumes "started p n evs = Some s" and "k < length (icons s)"
  shows "(hasDragged (icons s ! k) \<longrightarrow> step (DomEvent (Container k) ''click'' x) s = s)
       \<and> (\<not> hasDragged (icons s ! k) \<longrightarrow>
            step (DomEvent (Container k) ''click'' x) s
              = s\<lparr>world := (world s)
                    \<lparr>calls := calls (world s) @ [WindowOpen (dataset_link (iconContainers p ! k)) ''_blank'']\<rparr>\<rparr>)
       \<and> icons (step (DomEvent (Container k) ''click'' x) s) = icons s"
proof -
  from assms(1) obtain s0 where s0: "initSocialIcons p (fresh_env n) = Inr s0" and i: "inv s0 s"
    by (rule started_inv)
  note c = click_step [OF s0 i assms(2), of x]
  have l: "link (icons s ! k) = dataset_link (iconContainers p ! k)"
    by (rule reached_icons(4) [OF s0 i assms(2)])
  show ?thesis unfolding c by (simp add: onClick_def l)
qed

theorem click_navigates_unless_dragged_witness:
  "\<exists>s. started example_page 0
          [Intersection [True] 0, GltfLoaded 1 example_gltf,
           DomEvent (Container 1) ''mousedown'' 40, DomEvent Window ''mousemove'' 70,
           DomEvent Window ''mouseup'' 70] = Some s
      \<and> hasDragged (icons s ! 1) \<and> \<not> hasDragged (icons s ! 0)
      \<and> step (DomEvent (Container 1) ''click'' 70) s = s
      \<and> calls (world (step (DomEvent (Container 0) ''click'' 5) s))
          = calls (world s) @ [WindowOpen (Some ''https://github.com'') ''_blank'']"
proof -
  obtain s where s: "started example_page 0
          [Intersection [True] 0, GltfLoaded 1 example_gltf,
           DomEvent (Container 1) ''mousedown'' 40, DomEvent Window ''mousemove'' 70,
           DomEvent Window ''mouseup'' 70] = Some s"
    using started_example by blast
  have e: "length (icons s) = 2" "hasDragged (icons s ! 1)" "\<not> hasDragged (icons s ! 0)"
    using s by (auto simp: eval_defs)
  have k0: "0 < length (icons s)" and k1: "1 < length (icons s)" using e(1) by simp_all
  from click_navigates_unless_dragged [OF s k1, of 70] e(2)
  have a: "step (DomEvent (Container 1) ''click'' 70) s = s" by blast
  from click_navigates_unless_dragged [OF s k0, of 5] e(3)
  have "step (DomEvent (Container 0) ''click'' 5) s
      = s\<lparr>world := (world s)
            \<lparr>calls := calls (world s) @ [WindowOpen (dataset_link (iconContainers example_page ! 0)) ''_blank'']\<rparr>\<rparr>"
    by blast
  then have b: "calls (world (step (DomEvent (Container 0) ''click'' 5) s))
      = calls (world s) @ [WindowOpen (Some ''https://github.com'') ''_blank'']"
    by (simp add: example_page_def)
  from s e a b show ?thesis by blast
qed
section \<open>Dragging an icon whose model has not arrived\<close>

lemma onDragMove_unloaded: "pivot ic = None \<Longrightarrow> onDragMove x ic = ic"
  by (simp add: onDragMove_def)

lemma touchMoveHandler_unloaded: "pivot ic = None \<Longrightarrow> touchMoveHandler x ic = ic"
  by (simp add: touchMoveHandler_def onDragMove_unloaded)

lemma upd_icon_nth:
  "length (icons (upd_icon j f s)) = length (icons s)"
  "k < length (icons s) \<Longrightarrow> icons (upd_icon j f s) ! k = (if j = k then f (icons s ! k) else icons s ! k)"
  by (simp_all add: upd_icon_def)

lemma window_move_keeps:
  assumes s0: "initSocialIcons p (fresh_env n) = Inr s0" and i: "inv s0 s"
    and k: "k < length (icons s)" and pv: "pivot (icons s ! k) = None"
    and ev: "ev = ''mousemove'' \<or> ev = ''touchmove''"
  shows "icons (step (DomEvent Window ev x) s) ! k = icons s ! k"
proof -
  let ?P = "\<lambda>t::state. length (icons t) = length (icons s) \<and> icons t ! k = icons s ! k"
  have "?P (foldl (run_handler x) s (handlers_for Window ev (listeners (world s))))"
  proof (rule foldl_preserves_set)
    show "?P s" by simp
  next
    fix t h
    assume h: "h \<in> set (handlers_for Window ev (listeners (world s)))" and t: "?P t"
    from reached_window_handlers [OF s0 i h] obtain j where j: "(Window, ev, h) \<in> set (icon_listeners j)"
      by blast
    from t k pv have tk: "k < length (icons t)" "pivot (icons t ! k) = None" by simp_all
    from ev show "?P (run_handler x t h)"
    proof
      assume "ev = ''mousemove''"
      with j have "h = Handler j OnMouseMove" by (simp add: window_listener_kinds)
      with t tk show ?thesis by (simp add: upd_icon_nth onDragMove_unloaded)
    next
      assume "ev = ''touchmove''"
      with j have "h = Handler j OnTouchMove" by (simp add: window_listener_kinds)
      with t tk show ?thesis by (simp add: upd_icon_nth touchMoveHandler_unloaded)
    qed
  qed
  then show ?thesis by (simp add: dispatchEvent_def)
qed

lemma window_moves_keep:
  assumes s0: "initSocialIcons p (fresh_env n) = Inr s0"
  shows "inv s0 s \<Longrightarrow> k < length (icons s) \<Longrightarrow> pivot (icons s ! k) = None \<Longrightarrow>
     icons (run (map (DomEvent Window ''mousemove'') xs) s) ! k = icons s ! k
     \<and> inv s0 (run (map (DomEvent Window ''mousemove'') xs) s)
     \<and> length (icons (run (map (DomEvent Window ''mousemove'') xs) s)) = length (icons s)"
proof (induction xs arbitrary: s)
  case Nil
  then show ?case by (simp add: run_def)
next
  case (Cons x xs)
  let ?s1 = "step (DomEvent Window ''mousemove'' x) s"
  have 1: "inv s0 ?s1" by (rule inv_step [OF Cons.prems(1)])
  have 2: "icons ?s1 ! k = icons s ! k"
    by (rule window_move_keeps [OF s0 Cons.prems]) simp
  have 3: "length (icons ?s1) = length (icons s)"
    using reached_icons(1) [OF s0 1] reached_icons(1) [OF s0 Cons.prems(1)] by simp
  from Cons.IH [OF 1] 2 3 Cons.prems(2,3) show ?case
    by (simp add: run_Cons)
qed

text \<open>
  Claim C10. In every state the module reaches, an icon whose pivot is still null has
  \<open>hasDragged\<close> false; a pointer-move or touch-move event leaves such an icon exactly as
  it is; after a pointer-down on it and any number of pointer-moves the icon differs
  from before only by what the pointer-down set (\<open>isDragging\<close>, \<open>hasDragged = false\<close>,
  \<open>lastX\<close>), so \<open>manualRotation\<close> is untouched; and a click on it, before or after such a
  drag, opens its link.
\<close>

theorem unloaded_icon_drag_is_noop:
  assumes "started p n evs = Some s" and "k < length (icons s)" and "pivot (icons s ! k) = None"
  shows "\<not> hasDragged (icons s ! k)
       \<and> onDragMove x (icons s ! k) = icons s ! k
       \<and> icons (step (DomEvent Window ''mousemove'' x) s) ! k = icons s ! k
       \<and> icons (step (DomEvent Window ''touchmove'' x) s) ! k = icons s ! k
       \<and> calls (world (step (DomEvent (Container k) ''click'' y) s))
           = calls (world s) @ [WindowOpen (dataset_link (iconContainers p ! k)) ''_blank'']
       \<and> icons (run (DomEvent (Container k) ''mousedown'' x0 # map (DomEvent Window ''mousemove'') xs) s) ! k
           = (icons s ! k)\<lparr>isDragging := True, hasDragged := False, lastX := x0\<rparr>
       \<and> calls (world (step (DomEvent (Container k) ''click'' y)
             (run (DomEvent (Container k) ''mousedown'' x0 # map (DomEvent Window ''mousemove'') xs) s)))
           = calls (world (run (DomEvent (Container k) ''mousedown'' x0 # map (DomEvent Window ''mousemove'') xs) s))
             @ [WindowOpen (dataset_link (iconContainers p ! k)) ''_blank'']"
proof -
  from assms(1) obtain s0 where s0: "initSocialIcons p (fresh_env n) = Inr s0" and i: "inv s0 s"
    by (rule started_inv)
  have opens: "calls (world (step (DomEvent (Container k) ''click'' y) t))
      = calls (world t) @ [WindowOpen (dataset_link (iconContainers p ! k)) ''_blank'']"
    if t: "inv s0 t" "k < length (icons t)" "pivot (icons t ! k) = None" for t
  proof -
    have "icon_inv (icons t ! k)" using t(1,2) by (simp add: inv_def list_all_length)
    with t(3) have "\<not> hasDragged (icons t ! k)" by (auto simp: icon_inv_def)
    then show ?thesis
      unfolding click_step [OF s0 t(1,2)]
      by (simp add: onClick_def reached_icons(4) [OF s0 t(1,2)])
  qed
  have "icon_inv (icons s ! k)" using i assms(2) by (simp add: inv_def list_all_length)
  with assms(3) have 1: "\<not> hasDragged (icons s ! k)" by (auto simp: icon_inv_def)
  have 2: "onDragMove x (icons s ! k) = icons s ! k"
    by (rule onDragMove_unloaded [OF assms(3)])
  have 3: "icons (step (DomEvent Window ''mousemove'' x) s) ! k = icons s ! k"
    by (rule window_move_keeps [OF s0 i assms(2,3)]) simp
  have 4: "icons (step (DomEvent Window ''touchmove'' x) s) ! k = icons s ! k"
    by (rule window_move_keeps [OF s0 i assms(2,3)]) simp
  have 5: "calls (world (step (DomEvent (Container k) ''click'' y) s))
      = calls (world s) @ [WindowOpen (dataset_link (iconContainers p ! k)) ''_blank'']"
    by (rule opens [OF i assms(2,3)])
  let ?s1 = "step (DomEvent (Container k) ''mousedown'' x0) s"
  let ?s2 = "run (DomEvent (Container k) ''mousedown'' x0 # map (DomEvent Window ''mousemove'') xs) s"
  have s1: "?s1 = upd_icon k (onDragStart x0) s" by (rule mousedown_step [OF s0 i assms(2)])
  have i1: "inv s0 ?s1" by (rule inv_step [OF i])
  have k1: "k < length (icons ?s1)" and ic1: "icons ?s1 ! k = onDragStart x0 (icons s ! k)"
    unfolding s1 using assms(2) by (simp_all add: upd_icon_nth)
  have p1: "pivot (icons ?s1 ! k) = None"
    unfolding ic1 using assms(3) by (simp add: onDragStart_def)
  have s2: "?s2 = run (map (DomEvent Window ''mousemove'') xs) ?s1" by (rule run_Cons)
  note w = window_moves_keep [OF s0 i1 k1 p1, of xs]
  have 6: "icons ?s2 ! k = (icons s ! k)\<lparr>isDragging := True, hasDragged := False, lastX := x0\<rparr>"
    unfolding s2 using w ic1 by (simp add: onDragStart_def)
  have i2: "inv s0 ?s2" and k2: "k < length (icons ?s2)"
    unfolding s2 using w k1 by simp_all
  have p2: "pivot (icons ?s2 ! k) = None"
    unfolding 6 using assms(3) by simp
  have 7: "calls (world (step (DomEvent (Container k) ''click'' y) ?s2))
      = calls (world ?s2) @ [WindowOpen (dataset_link (iconContainers p ! k)) ''_blank'']"
    by (rule opens [OF i2 k2 p2])
  from 1 2 3 4 5 6 7 show ?thesis by blast
qed

theorem unloaded_icon_drag_is_noop_witness:
  "\<exists>s. started example_page 0 [Intersection [True] 0, GltfLoaded 1 example_gltf] = Some s
      \<and> pivot (icons s ! 0) = None
      \<and> \<not> hasDragged (icons s ! 0)
      \<and> icons (run (DomEvent (Container 0) ''mousedown'' 10
                     # map (DomEvent Window ''mousemove'') [50, 90, 300]) s) ! 0
          = (icons s ! 0)\<lparr>isDragging := True, hasDragged := False, lastX := 10\<rparr>
      \<and> calls (world (step (DomEvent (Container 0) ''click'' 300)
            (run (DomEvent (Container 0) ''mousedown'' 10 # map (DomEvent Window ''mousemove'') [50, 90, 300]) s)))
          = calls (world (run (DomEvent (Container 0) ''mousedown'' 10
                               # map (DomEvent Window ''mousemove'') [50, 90, 300]) s))
            @ [WindowOpen (Some ''https://github.com'') ''_blank'']"
proof -
  obtain s where s: "started example_page 0 [Intersection [True] 0, GltfLoaded 1 example_gltf] = Some s"
    using started_example by blast
  have e: "length (icons s) = 2" "pivot (icons s ! 0) = None"
    using s by (auto simp: eval_defs)
  have k0: "0 < length (icons s)" using e(1) by simp
  have l: "dataset_link (iconContainers example_page ! 0) = Some ''https://github.com''"
    by (simp add: example_page_def)
  from unloaded_icon_drag_is_noop [OF s k0 e(2), of _ 300 10 "[50, 90, 300]"] s e(2)
  show ?thesis unfolding l by blast
qed
section \<open>Cleanup\<close>

lemma traverse_self: "ob \<in> set (traverse ob)"
  by (cases ob) simp

lemma traverse_child:
  "c \<in> set (children ob) \<Longrightarrow> x \<in> set (traverse c) \<Longrightarrow> x \<in> set (traverse ob)"
  by (cases ob) auto

lemma model_nodes_in_scene:
  assumes "pivot ic = Some pv" and "PivotRef \<in> set (scene ic)"
    and "nd \<in> set (nodes (child pv))" and "ob \<in> set (traverse nd)"
  shows "ob \<in> set (traverse (scene_graph ic))"
proof -
  let ?model = "Object3D None NoMaterial (nodes (child pv))"
  let ?pivot = "Object3D None NoMaterial [?model]"
  have "ob \<in> set (traverse ?model)"
    using assms(3,4) by (rule_tac traverse_child [of nd]) simp_all
  then have "ob \<in> set (traverse ?pivot)"
    by (rule_tac traverse_child [of ?model]) simp_all
  moreover have "?pivot \<in> set (children (scene_graph ic))"
    using assms(1,2) by (force simp: scene_graph_def)
  ultimately show ?thesis by (rule_tac traverse_child [of ?pivot]) simp_all
qed

lemma dispose_object_covers:
  "geometry ob = Some g \<Longrightarrow> GeometryDispose g \<in> set (dispose_object ob)"
  "m \<in> set (materials_of (material ob)) \<Longrightarrow> MaterialDispose m \<in> set (dispose_object ob)"
  by (auto simp: dispose_object_def split: material.splits)

lemma dispose_releases:
  assumes "ic \<in> set (icons s)" and "ob \<in> set (traverse (scene_graph ic))"
  shows "set (dispose_object ob) \<subseteq> set (calls (world (dispose s)))"
  using assms by (auto simp: dispose_fields)

text \<open>
  Claim C8. After \<^verbatim>\<open>dispose()\<close>, in whatever state the module was: the loop is stopped
  and no frame callback is pending; the observer watches nothing; no listener of the
  module is registered on the window; no canvas of the module is attached to the page;
  no renderer is held, and the renderer that was held has been disposed. The calls made
  are, for each icon in turn and each object of its scene in traversal order, the
  disposal of its geometry and of its material or materials, and last the disposal of
  the renderer; so every geometry and every material in an icon's scene, those of a
  loaded model among them, has been disposed.
\<close>

theorem dispose_cleans_up:
  assumes "started p n evs = Some s"
  shows "\<not> isAnimating (step DisposeCall s)
       \<and> animFrameId (step DisposeCall s) = None
       \<and> rafPending (world (step DisposeCall s)) = []
       \<and> observed (world (step DisposeCall s)) = []
       \<and> filter (\<lambda>l. fst l = Window) (listeners (world (step DisposeCall s))) = []
       \<and> attached (world (step DisposeCall s)) = []
       \<and> sharedRenderer (step DisposeCall s) = None
       \<and> calls (world (step DisposeCall s))
           = calls (world s)
             @ concat (map (\<lambda>ic. concat (map dispose_object (traverse (scene_graph ic)))) (icons s))
             @ (case sharedRenderer s of None \<Rightarrow> [] | Some r \<Rightarrow> [RendererDispose])
       \<and> (\<forall>ic\<in>set (icons s). \<forall>ob\<in>set (traverse (scene_graph ic)).
            (\<forall>g. geometry ob = Some g \<longrightarrow> GeometryDispose g \<in> set (calls (world (step DisposeCall s))))
            \<and> (\<forall>m\<in>set (materials_of (material ob)).
                 MaterialDispose m \<in> set (calls (world (step DisposeCall s)))))
       \<and> (\<forall>ic\<in>set (icons s). \<forall>pv. pivot ic = Some pv \<longrightarrow>
            (\<forall>nd\<in>set (nodes (child pv)). \<forall>ob\<in>set (traverse nd). ob \<in> set (traverse (scene_graph ic))))"
proof -
  from assms obtain s0 where s0: "initSocialIcons p (fresh_env n) = Inr s0" and i: "inv s0 s"
    by (rule started_inv)
  note f = dispose_fields [of s]
  have lp: "loop_inv s" and st: "stable s0 s" using i by (simp_all add: inv_def)
  have 1: "\<not> isAnimating (step DisposeCall s) \<and> animFrameId (step DisposeCall s) = None
      \<and> rafPending (world (step DisposeCall s)) = [] \<and> observed (world (step DisposeCall s)) = []
      \<and> sharedRenderer (step DisposeCall s) = None"
    by (simp add: f(2,3,4,8) dispose_pending [OF lp])
  have d: "distinct (listeners (world s))" using st by (simp add: stable_def)
  have sub: "set (listeners (world s)) \<subseteq> set (listeners (world s0))"
    using st by (simp add: stable_def)
  have 2: "filter (\<lambda>l. fst l = Window) (listeners (world (step DisposeCall s))) = []"
  proof (rule filter_none)
    fix l assume l: "l \<in> set (listeners (world (step DisposeCall s)))"
    show "\<not> fst l = Window"
    proof
      assume w: "fst l = Window"
      obtain ev h where lv: "l = (Window, ev, h)" using w by (cases l) auto
      from l removeWindowListeners_props [OF d, of "icons s"]
      have in_s: "l \<in> set (listeners (world s))"
        and not_stashed: "l \<notin> (\<Union>ic\<in>set (icons s). (\<lambda>(ev, h). (Window, ev, h)) ` set (windowListeners ic))"
        by (auto simp: f(9))
      from in_s sub have "l \<in> set (concat (map icon_listeners [0..<length (iconContainers p)]))"
        using init_listeners(1) [OF s0] by auto
      then obtain j where j: "j < length (iconContainers p)" "l \<in> set (icon_listeners j)" by auto
      then have js: "j < length (icons s)" by (simp add: reached_icons(1) [OF s0 i])
      from j(2) have "(ev, h) \<in> set (icon_window_listeners j)"
        unfolding lv by (rule window_listener_kinds(3))
      then have "(ev, h) \<in> set (windowListeners (icons s ! j))"
        by (simp add: reached_icons(5) [OF s0 i js])
      moreover have "icons s ! j \<in> set (icons s)" using js by simp
      ultimately have "l \<in> (\<Union>ic\<in>set (icons s). (\<lambda>(ev, h). (Window, ev, h)) ` set (windowListeners ic))"
        unfolding lv by force
      with not_stashed show False by contradiction
    qed
  qed
  have 3: "attached (world (step DisposeCall s)) = []"
  proof -
    have "filter (\<lambda>(c, q). c \<notin> index ` set (icons s)) (attached (world s)) = []"
    proof (rule filter_none)
      fix a assume "a \<in> set (attached (world s))"
      moreover have "set (attached (world s)) \<subseteq> set (attached (world s0))"
        using st by (simp add: stable_def)
      ultimately have "a \<in> set (map (\<lambda>k. (k, k)) [0..<length (iconContainers p)])"
        using init_listeners(2) [OF s0] by auto
      then have "fst a \<in> {0..<length (iconContainers p)}" by auto
      then have "fst a \<in> index ` set (icons s)" by (simp only: reached_icons(6) [OF s0 i])
      then show "\<not> (case a of (c, q) \<Rightarrow> c \<notin> index ` set (icons s))"
        by (simp add: case_prod_unfold)
    qed
    then show ?thesis by (simp add: f(10))
  qed
  have 4: "calls (world (step DisposeCall s))
      = calls (world s)
        @ concat (map (\<lambda>ic. concat (map dispose_object (traverse (scene_graph ic)))) (icons s))
        @ (case sharedRenderer s of None \<Rightarrow> [] | Some r \<Rightarrow> [RendererDispose])"
    by (simp add: f(12))
  have 5: "\<forall>ic\<in>set (icons s). \<forall>ob\<in>set (traverse (scene_graph ic)).
      (\<forall>g. geometry ob = Some g \<longrightarrow> GeometryDispose g \<in> set (calls (world (step DisposeCall s))))
      \<and> (\<forall>m\<in>set (materials_of (material ob)). MaterialDispose m \<in> set (calls (world (step DisposeCall s))))"
  proof (intro ballI conjI allI impI)
    fix ic ob g
    assume a: "ic \<in> set (icons s)" "ob \<in> set (traverse (scene_graph ic))" "geometry ob = Some g"
    from dispose_releases [OF a(1,2)] dispose_object_covers(1) [OF a(3)]
    show "GeometryDispose g \<in> set (calls (world (step DisposeCall s)))" by auto
  next
    fix ic ob m
    assume a: "ic \<in> set (icons s)" "ob \<in> set (traverse (scene_graph ic))"
      "m \<in> set (materials_of (material ob))"
    from dispose_releases [OF a(1,2)] dispose_object_covers(2) [OF a(3)]
    show "MaterialDispose m \<in> set (calls (world (step DisposeCall s)))" by auto
  qed
  have 6: "\<forall>ic\<in>set (icons s). \<forall>pv. pivot ic = Some pv \<longrightarrow>
      (\<forall>nd\<in>set (nodes (child pv)). \<forall>ob\<in>set (traverse nd). ob \<in> set (traverse (scene_graph ic)))"
  proof (intro ballI allI impI)
    fix ic pv nd ob
    assume a: "ic \<in> set (icons s)" "pivot ic = Some pv" "nd \<in> set (nodes (child pv))"
      "ob \<in> set (traverse nd)"
    have "icon_inv ic" using i a(1) by (simp add: inv_def list_all_iff)
    with a(2) have "PivotRef \<in> set (scene ic)" by (simp add: icon_inv_def)
    from model_nodes_in_scene [OF a(2) this a(3,4)]
    show "ob \<in> set (traverse (scene_graph ic))" .
  qed
  from 1 2 3 4 5 6 show ?thesis by blast
qed

theorem dispose_cleans_up_witness:
  "\<exists>s. started example_page 0 [Intersection [True] 0, GltfLoaded 1 example_gltf, AnimationFrame 0 16] = Some s
      \<and> filter (\<lambda>l. fst l = Window) (listeners (world s)) \<noteq> []
      \<and> attached (world s) \<noteq> []
      \<and> sharedRenderer s \<noteq> None
      \<and> filter (\<lambda>l. fst l = Window) (listeners (world (step DisposeCall s))) = []
      \<and> attached (world (step DisposeCall s)) = []
      \<and> rafPending (world (step DisposeCall s)) = []
      \<and> sharedRenderer (step DisposeCall s) = None
      \<and> GeometryDispose 3 \<in> set (calls (world (step DisposeCall s)))
      \<and> MaterialDispose 5 \<in> set (calls (world (step DisposeCall s)))
      \<and> last (calls (world (step DisposeCall s))) = RendererDispose"
proof -
  obtain s where s: "started example_page 0 [Intersection [True] 0, GltfLoaded 1 example_gltf, AnimationFrame 0 16] = Some s"
    using started_example by blast
  have e: "filter (\<lambda>l. fst l = Window) (listeners (world s)) \<noteq> []" "attached (world s) \<noteq> []"
    "sharedRenderer s \<noteq> None" "length (icons s) = 2"
    "\<exists>pv. pivot (icons s ! 1) = Some pv \<and> Object3D (Some 3) (Materials [4, 5]) [] \<in> set (nodes (child pv))"
    using s by (auto simp: eval_defs fit_model_def gltf_scene_def)
  then obtain pv where pv: "pivot (icons s ! 1) = Some pv"
    "Object3D (Some 3) (Materials [4, 5]) [] \<in> set (nodes (child pv))" by blast
  have ic: "icons s ! 1 \<in> set (icons s)" using e(4) by simp
  note t = dispose_cleans_up [OF s]
  from t ic pv have ob: "Object3D (Some 3) (Materials [4, 5]) [] \<in> set (traverse (scene_graph (icons s ! 1)))"
    using traverse_self [of "Object3D (Some 3) (Materials [4, 5]) []"] by blast
  from t have r: "\<forall>ic\<in>set (icons s). \<forall>ob\<in>set (traverse (scene_graph ic)).
      (\<forall>g. geometry ob = Some g \<longrightarrow> GeometryDispose g \<in> set (calls (world (step DisposeCall s))))
      \<and> (\<forall>m\<in>set (materials_of (material ob)).
           MaterialDispose m \<in> set (calls (world (step DisposeCall s))))"
    by blast
  from r ic ob
  have both: "(\<forall>g. geometry (Object3D (Some 3) (Materials [4, 5]) []) = Some g \<longrightarrow>
        GeometryDispose g \<in> set (calls (world (step DisposeCall s))))
      \<and> (\<forall>m\<in>set (materials_of (material (Object3D (Some 3) (Materials [4, 5]) []))).
           MaterialDispose m \<in> set (calls (world (step DisposeCall s))))"
    by blast
  from both have g: "GeometryDispose 3 \<in> set (calls (world (step DisposeCall s)))"
    by simp
  from both have m: "MaterialDispose 5 \<in> set (calls (world (step DisposeCall s)))"
    by simp
  from t have c: "calls (world (step DisposeCall s))
      = calls (world s)
        @ concat (map (\<lambda>ic. concat (map dispose_object (traverse (scene_graph ic)))) (icons s))
        @ (case sharedRenderer s of None \<Rightarrow> [] | Some r \<Rightarrow> [RendererDispose])"
    by blast
  from e(3) obtain r0 where "sharedRenderer s = Some r0" by blast
  then have l: "last (calls (world (step DisposeCall s))) = RendererDispose"
    unfolding c by simp
  from t e g m l s show ?thesis by blast
qed

end
